theory Spec2Isabelle
  imports Main "HOL-Library.Word" "HOL-Library.Sublist"
begin

section \<open>The DNS / HTTP / text funnel of dns-http-scrape.js\<close>

text \<open>
  The script drives every input domain through three network stages (\<open>dnsLookup\<close>,
  \<open>httpCheck\<close>, \<open>fetchText\<close>) and pushes one record per domain. The network, the URL
  parser of Node and the HTML parser are outside the script: they are parameters of the
  model. A call to the outside world takes the state of the world \<open>'w\<close> and returns its
  answer with the next state, so that two requests for the same URL may be answered
  differently. A call that throws (or a promise that rejects) is an answer of its own.

  Domains, URLs and host names are \<open>string\<close>s; every operation of the script on them
  (concatenation, \<open>startsWith\<close>, the digit-and-dot pattern, \<open>join\<close>) looks at ASCII
  characters only. The text of a page is a list of UTF-16 code units, which is what
  \<open>length\<close>, \<open>slice\<close>, \<open>\s\<close> and \<open>trim\<close> of JavaScript work on.
\<close>

subsection \<open>Configuration\<close>

definition TEXT_MIN_CHARS :: nat where
  "TEXT_MIN_CHARS = 200"

definition TEXT_MAX_CHARS :: nat where
  "TEXT_MAX_CHARS = 10000"

subsection \<open>Data\<close>

type_synonym code_unit = "16 word"
type_synonym jstext = "code_unit list"

datatype fault = Thrown

text \<open>The callback of \<open>resolver.resolve4\<close>: an error, or the list of addresses; or the
  call itself throws before any callback.\<close>

datatype dns_reply = DnsThrows | DnsErr | DnsAddresses "string list"

text \<open>\<open>axios.get\<close> of \<open>httpCheck\<close> (\<open>validateStatus: () => true\<close>, five redirects at
  most): a response with its status and \<open>request.res.responseUrl\<close>, or a rejection
  (time-out, refused connection, too many redirects).\<close>

datatype probe_reply = ProbeRejects | ProbeResponse int string

text \<open>\<open>axios.get\<close> of \<open>fetchText\<close> (default \<open>validateStatus\<close>): a response with its
  status and its \<open>data\<close>, or a rejection.\<close>

datatype 'd page_reply = PageRejects | PageResponse int 'd

record ('w, 'd) env =
  resolve4 :: "'w \<Rightarrow> string \<Rightarrow> dns_reply \<times> 'w"
  axios_get_probe :: "'w \<Rightarrow> string \<Rightarrow> probe_reply \<times> 'w"
  axios_get_page :: "'w \<Rightarrow> string \<Rightarrow> 'd page_reply \<times> 'w"
  url_hostname :: "string \<Rightarrow> string option"
  body_text :: "'d \<Rightarrow> jstext option"

text \<open>\<open>url_hostname u\<close> is \<open>new URL(u).hostname\<close>, \<open>None\<close> when the constructor throws.
  \<open>body_text d\<close> is the text of \<open>body\<close> after \<open>cheerio.load(d)\<close> and the removal of
  \<open>script\<close>, \<open>style\<close> and \<open>noscript\<close>, \<open>None\<close> when cheerio throws.\<close>

record dns_res =
  r_has_dns :: bool
  r_dns_ips :: "string option"

record http_res =
  r_http_ok :: bool
  r_final_url :: "string option"
  r_status_code :: "int option"
  r_used_https :: bool

record text_res =
  r_homepage_text :: "jstext option"
  r_text_ok :: bool

record domain_record =
  domain :: string
  has_dns :: bool
  dns_ips :: "string option"
  http_ok :: bool
  final_url :: "string option"
  status_code :: "int option"
  used_https :: bool
  text_ok :: bool
  homepage_text :: "jstext option"
  stage :: string

subsection \<open>dnsLookup\<close>

fun join :: "string \<Rightarrow> string list \<Rightarrow> string" where
  "join sep [] = []"
| "join sep [x] = x"
| "join sep (x # y # ys) = x @ sep @ join sep (y # ys)"

definition dnsLookup :: "('w, 'd) env \<Rightarrow> 'w \<Rightarrow> string \<Rightarrow> (fault + dns_res) \<times> 'w" where
  "dnsLookup e w dn =
     (case resolve4 e w dn of
        (DnsThrows, w') \<Rightarrow> (Inl Thrown, w')
      | (DnsErr, w') \<Rightarrow> (Inr \<lparr>r_has_dns = False, r_dns_ips = None\<rparr>, w')
      | (DnsAddresses addresses, w') \<Rightarrow>
          (Inr \<lparr>r_has_dns = True, r_dns_ips = Some (join '';'' addresses)\<rparr>, w'))"

subsection \<open>isIpHost: the pattern \<open>^\d{1,3}(\.\d{1,3}){3}$\<close>\<close>

text \<open>Regular expressions with the constructs the pattern uses, matched by derivatives.
  \<open>Times m n r\<close> is \<open>r{m,n}\<close>; its derivative is the one of a body that does not match
  the empty string, which is the case of both repetitions of the pattern.\<close>

datatype rexp =
    Nul
  | Eps
  | Digit
  | Lit char
  | Alt rexp rexp
  | Then rexp rexp
  | Times nat nat rexp

definition is_digit :: "char \<Rightarrow> bool" where
  "is_digit c = (c \<in> set ''0123456789'')"

fun nullable :: "rexp \<Rightarrow> bool" where
  "nullable Nul = False"
| "nullable Eps = True"
| "nullable Digit = False"
| "nullable (Lit c) = False"
| "nullable (Alt r s) = (nullable r \<or> nullable s)"
| "nullable (Then r s) = (nullable r \<and> nullable s)"
| "nullable (Times m n r) = (m = 0 \<or> (0 < n \<and> nullable r))"

fun deriv :: "char \<Rightarrow> rexp \<Rightarrow> rexp" where
  "deriv c Nul = Nul"
| "deriv c Eps = Nul"
| "deriv c Digit = (if is_digit c then Eps else Nul)"
| "deriv c (Lit d) = (if c = d then Eps else Nul)"
| "deriv c (Alt r s) = Alt (deriv c r) (deriv c s)"
| "deriv c (Then r s) =
     (if nullable r then Alt (Then (deriv c r) s) (deriv c s) else Then (deriv c r) s)"
| "deriv c (Times m n r) =
     (if n = 0 then Nul else Then (deriv c r) (Times (m - 1) (n - 1) r))"

definition matches :: "rexp \<Rightarrow> string \<Rightarrow> bool" where
  "matches r s = nullable (foldl (\<lambda>q c. deriv c q) r s)"

definition ip_pattern :: rexp where
  "ip_pattern =
     Then (Times 1 3 Digit) (Times 3 3 (Then (Lit CHR ''.'') (Times 1 3 Digit)))"

definition isIpHost :: "('w, 'd) env \<Rightarrow> string \<Rightarrow> bool" where
  "isIpHost e url =
     (case url_hostname e url of
        None \<Rightarrow> False
      | Some host \<Rightarrow> matches ip_pattern host)"

subsection \<open>httpCheck\<close>

definition urls :: "string \<Rightarrow> string list" where
  "urls dn =
     [''https://'' @ dn @ ''/'',
      ''https://www.'' @ dn @ ''/'',
      ''http://'' @ dn @ ''/'',
      ''http://www.'' @ dn @ ''/'']"

definition http_not_ok :: http_res where
  "http_not_ok =
     \<lparr>r_http_ok = False, r_final_url = None, r_status_code = None, r_used_https = False\<rparr>"

text \<open>The body of the \<open>for\<close> loop of \<open>httpCheck\<close>, over the candidates still to try. A
  rejected request is caught and the loop goes on; so does a status outside
  \<open>[200, 400)\<close>.\<close>

fun httpCheck_loop :: "('w, 'd) env \<Rightarrow> 'w \<Rightarrow> string list \<Rightarrow> http_res \<times> 'w" where
  "httpCheck_loop e w [] = (http_not_ok, w)"
| "httpCheck_loop e w (url # rest) =
     (case axios_get_probe e w url of
        (ProbeRejects, w') \<Rightarrow> httpCheck_loop e w' rest
      | (ProbeResponse status finalUrl, w') \<Rightarrow>
          if 200 \<le> status \<and> status < 400 then
            (if isIpHost e finalUrl then (http_not_ok, w')
             else (\<lparr>r_http_ok = True, r_final_url = Some finalUrl,
                     r_status_code = Some status,
                     r_used_https = prefix ''https://'' finalUrl\<rparr>, w'))
          else httpCheck_loop e w' rest)"

definition httpCheck :: "('w, 'd) env \<Rightarrow> 'w \<Rightarrow> string \<Rightarrow> http_res \<times> 'w" where
  "httpCheck e w dn = httpCheck_loop e w (urls dn)"

subsection \<open>fetchText\<close>

text \<open>The characters \<open>\s\<close> matches and \<open>trim\<close> strips: the white space and the line
  terminators of ECMAScript.\<close>

definition is_space :: "code_unit \<Rightarrow> bool" where
  "is_space c =
     ((0x0009 \<le> c \<and> c \<le> 0x000D) \<or> c = 0x0020 \<or> c = 0x00A0 \<or> c = 0x1680
      \<or> (0x2000 \<le> c \<and> c \<le> 0x200A) \<or> c = 0x2028 \<or> c = 0x2029 \<or> c = 0x202F
      \<or> c = 0x205F \<or> c = 0x3000 \<or> c = 0xFEFF)"

text \<open>\<open>text.replace(/\s+/g, " ")\<close>: every maximal run of white space becomes one space.\<close>

function collapse_spaces :: "jstext \<Rightarrow> jstext" where
  "collapse_spaces [] = []"
| "collapse_spaces (c # cs) =
     (if is_space c then 0x0020 # collapse_spaces (dropWhile is_space cs)
      else c # collapse_spaces cs)"
  by pat_completeness auto
termination
  by (relation "measure length") (auto simp: less_Suc_eq_le length_dropWhile_le)

definition trim :: "jstext \<Rightarrow> jstext" where
  "trim t = rev (dropWhile is_space (rev (dropWhile is_space t)))"

definition text_not_ok :: text_res where
  "text_not_ok = \<lparr>r_homepage_text = None, r_text_ok = False\<rparr>"

text \<open>\<open>fetchText\<close> is called with \<open>httpRes.final_url\<close>, which may be \<open>null\<close>; \<open>axios.get\<close>
  then rejects inside the \<open>try\<close>.\<close>

definition fetchText :: "('w, 'd) env \<Rightarrow> 'w \<Rightarrow> string option \<Rightarrow> text_res \<times> 'w" where
  "fetchText e w url =
     (case url of
        None \<Rightarrow> (text_not_ok, w)
      | Some u \<Rightarrow>
          (case axios_get_page e w u of
             (PageRejects, w') \<Rightarrow> (text_not_ok, w')
           | (PageResponse status d, w') \<Rightarrow>
               if 200 \<le> status \<and> status < 400 then
                 (case body_text e d of
                    None \<Rightarrow> (text_not_ok, w')
                  | Some body \<Rightarrow>
                      (let text = trim (collapse_spaces body) in
                       if TEXT_MIN_CHARS \<le> length text
                       then (\<lparr>r_homepage_text = Some (take TEXT_MAX_CHARS text),
                               r_text_ok = True\<rparr>, w')
                       else (text_not_ok, w')))
               else (text_not_ok, w')))"

subsection \<open>The limiters\<close>

text \<open>\<open>pLimit(n)\<close> gives a function that runs its argument as soon as fewer than \<open>n\<close> of
  its calls are in flight and returns its promise. The loop of \<open>main\<close> awaits every call
  before it makes the next one, so a call finds the limiter idle and runs at once.\<close>

definition dnsLimit :: "('w \<Rightarrow> 'a \<times> 'w) \<Rightarrow> 'w \<Rightarrow> 'a \<times> 'w" where
  "dnsLimit fn w = fn w"

definition httpLimit :: "('w \<Rightarrow> 'a \<times> 'w) \<Rightarrow> 'w \<Rightarrow> 'a \<times> 'w" where
  "httpLimit fn w = fn w"

definition textLimit :: "('w \<Rightarrow> 'a \<times> 'w) \<Rightarrow> 'w \<Rightarrow> 'a \<times> 'w" where
  "textLimit fn w = fn w"

subsection \<open>main: the state of the run and the three awaited calls\<close>

record run_state =
  results :: "domain_record list"
  dnsCount :: nat
  httpCount :: nat
  textCount :: nat
  dnsErrors :: nat
  httpErrors :: nat
  textErrors :: nat

definition initial_state :: run_state where
  "initial_state =
     \<lparr>results = [], dnsCount = 0, httpCount = 0, textCount = 0,
      dnsErrors = 0, httpErrors = 0, textErrors = 0\<rparr>"

text \<open>What the three \<open>await\<close>s of the loop body give: a value, or \<open>Inl\<close> when the awaited
  promise rejects, which takes the body to its \<open>catch\<close>. The body is modelled over any
  three such calls; \<open>stage_calls\<close> are the ones of the script.\<close>

record 'w stages =
  dns_call :: "'w \<Rightarrow> string \<Rightarrow> (fault + dns_res) \<times> 'w"
  http_call :: "'w \<Rightarrow> string \<Rightarrow> (fault + http_res) \<times> 'w"
  text_call :: "'w \<Rightarrow> string option \<Rightarrow> (fault + text_res) \<times> 'w"

definition resolved :: "('w \<Rightarrow> 'a \<times> 'w) \<Rightarrow> 'w \<Rightarrow> (fault + 'a) \<times> 'w" where
  "resolved fn w = (case fn w of (v, w') \<Rightarrow> (Inr v, w'))"

text \<open>\<open>httpCheck\<close> and \<open>fetchText\<close> catch whatever their requests throw, so their promises
  always resolve; the promise of \<open>dnsLookup\<close> rejects when \<open>resolve4\<close> throws.\<close>

definition stage_calls :: "('w, 'd) env \<Rightarrow> 'w stages" where
  "stage_calls e =
     \<lparr>dns_call = (\<lambda>w dn. dnsLimit (\<lambda>w. dnsLookup e w dn) w),
      http_call = (\<lambda>w dn. httpLimit (resolved (\<lambda>w. httpCheck e w dn)) w),
      text_call = (\<lambda>w url. textLimit (resolved (\<lambda>w. fetchText e w url)) w)\<rparr>"

text \<open>The object literals of the four \<open>results.push\<close> calls of the \<open>try\<close> block and of the
  one in \<open>catch\<close>: the spread \<open>...httpRes\<close> and \<open>...textRes\<close> copy the fields of the stage
  results, the literal fields of lines 171, 177 and 199 are those of \<open>http_not_ok\<close> and
  \<open>text_not_ok\<close>.\<close>

definition record_of ::
  "string \<Rightarrow> dns_res \<Rightarrow> http_res \<Rightarrow> text_res \<Rightarrow> string \<Rightarrow> domain_record" where
  "record_of dn dr hr tr sg =
     \<lparr>domain = dn, has_dns = r_has_dns dr, dns_ips = r_dns_ips dr,
      http_ok = r_http_ok hr, final_url = r_final_url hr,
      status_code = r_status_code hr, used_https = r_used_https hr,
      text_ok = r_text_ok tr, homepage_text = r_homepage_text tr, stage = sg\<rparr>"

definition push :: "domain_record \<Rightarrow> run_state \<Rightarrow> run_state" where
  "push r st = st\<lparr>results := results st @ [r]\<rparr>"

definition catch_block :: "string \<Rightarrow> run_state \<Rightarrow> run_state" where
  "catch_block dn st =
     push (record_of dn \<lparr>r_has_dns = False, r_dns_ips = None\<rparr> http_not_ok text_not_ok ''fail'')
       (st\<lparr>dnsErrors := dnsErrors st + 1\<rparr>)"

text \<open>One pass of the loop body of \<open>main\<close> (lines 165 to 200) for the domain \<open>dn\<close>.\<close>

definition iteration :: "'w stages \<Rightarrow> string \<Rightarrow> run_state \<times> 'w \<Rightarrow> run_state \<times> 'w" where
  "iteration sg dn c =
     (case c of (st, w) \<Rightarrow>
      (case dns_call sg w dn of
         (Inl _, w1) \<Rightarrow> (catch_block dn st, w1)
       | (Inr dr, w1) \<Rightarrow>
           if \<not> r_has_dns dr then
             (push (record_of dn dr http_not_ok text_not_ok ''fail'')
                (st\<lparr>dnsErrors := dnsErrors st + 1\<rparr>), w1)
           else
             (let st1 = st\<lparr>dnsCount := dnsCount st + 1\<rparr> in
              case http_call sg w1 dn of
                (Inl _, w2) \<Rightarrow> (catch_block dn st1, w2)
              | (Inr hr, w2) \<Rightarrow>
                  if \<not> r_http_ok hr then
                    (push (record_of dn dr hr text_not_ok ''dns'')
                       (st1\<lparr>httpErrors := httpErrors st1 + 1\<rparr>), w2)
                  else
                    (let st2 = st1\<lparr>httpCount := httpCount st1 + 1\<rparr> in
                     case text_call sg w2 (r_final_url hr) of
                       (Inl _, w3) \<Rightarrow> (catch_block dn st2, w3)
                     | (Inr tr, w3) \<Rightarrow>
                         if \<not> r_text_ok tr then
                           (push (record_of dn dr hr tr ''http'')
                              (st2\<lparr>textErrors := textErrors st2 + 1\<rparr>), w3)
                         else
                           (push (record_of dn dr hr tr ''text'')
                              (st2\<lparr>textCount := textCount st2 + 1\<rparr>), w3)))))"

text \<open>The \<open>for\<close> loop over \<open>rows\<close>.\<close>

fun main_loop :: "'w stages \<Rightarrow> string list \<Rightarrow> run_state \<times> 'w \<Rightarrow> run_state \<times> 'w" where
  "main_loop sg [] c = c"
| "main_loop sg (dn # rest) c = main_loop sg rest (iteration sg dn c)"

text \<open>The rows the reader yields; \<open>rows\<close> keeps those whose \<open>domain\<close> is truthy, that is a
  non-empty string.\<close>

record input_row =
  row_domain :: "string option"

fun load_rows :: "input_row list \<Rightarrow> string list" where
  "load_rows [] = []"
| "load_rows (r # rs) =
     (case row_domain r of
        None \<Rightarrow> load_rows rs
      | Some dn \<Rightarrow> if dn = [] then load_rows rs else dn # load_rows rs)"

text \<open>\<open>main\<close>: a failure to read the input rejects the promise of \<open>main\<close>; otherwise the
  loop runs from the empty state, and \<open>results\<close> of the state it ends in is the list
  passed to \<open>writeParquetFile\<close>. The lines written to the console read the counters and
  change nothing; they are left out.\<close>

definition main ::
  "('w, 'd) env \<Rightarrow> 'w \<Rightarrow> fault + input_row list \<Rightarrow> fault + run_state \<times> 'w" where
  "main e w input =
     (case input of
        Inl f \<Rightarrow> Inl f
      | Inr recs \<Rightarrow> Inr (main_loop (stage_calls e) (load_rows recs) (initial_state, w)))"

subsection \<open>The loop body, one await at a time\<close>

text \<open>The points of a pass: before each awaited call, after it with what it gave, and
  the end of the pass. \<open>step\<close> runs from one point to the next: from a \<open>Call\<close> point it
  makes the call, from a \<open>Got\<close> point it runs the statements of \<open>main\<close> up to the next
  call or to the end of the body.\<close>

datatype point =
    CallDns
  | GotDns "fault + dns_res"
  | CallHttp dns_res
  | GotHttp dns_res "fault + http_res"
  | CallText dns_res http_res
  | GotText dns_res http_res "fault + text_res"
  | Completed

fun step :: "'w stages \<Rightarrow> string \<Rightarrow> point \<times> run_state \<times> 'w \<Rightarrow> point \<times> run_state \<times> 'w" where
  "step sg dn (CallDns, st, w) =
     (case dns_call sg w dn of (out, w') \<Rightarrow> (GotDns out, st, w'))"
| "step sg dn (GotDns (Inl f), st, w) = (Completed, catch_block dn st, w)"
| "step sg dn (GotDns (Inr dr), st, w) =
     (if \<not> r_has_dns dr then
        (Completed,
         push (record_of dn dr http_not_ok text_not_ok ''fail'')
           (st\<lparr>dnsErrors := dnsErrors st + 1\<rparr>), w)
      else (CallHttp dr, st\<lparr>dnsCount := dnsCount st + 1\<rparr>, w))"
| "step sg dn (CallHttp dr, st, w) =
     (case http_call sg w dn of (out, w') \<Rightarrow> (GotHttp dr out, st, w'))"
| "step sg dn (GotHttp dr (Inl f), st, w) = (Completed, catch_block dn st, w)"
| "step sg dn (GotHttp dr (Inr hr), st, w) =
     (if \<not> r_http_ok hr then
        (Completed,
         push (record_of dn dr hr text_not_ok ''dns'')
           (st\<lparr>httpErrors := httpErrors st + 1\<rparr>), w)
      else (CallText dr hr, st\<lparr>httpCount := httpCount st + 1\<rparr>, w))"
| "step sg dn (CallText dr hr, st, w) =
     (case text_call sg w (r_final_url hr) of (out, w') \<Rightarrow> (GotText dr hr out, st, w'))"
| "step sg dn (GotText dr hr (Inl f), st, w) = (Completed, catch_block dn st, w)"
| "step sg dn (GotText dr hr (Inr tr), st, w) =
     (if \<not> r_text_ok tr then
        (Completed,
         push (record_of dn dr hr tr ''http'')
           (st\<lparr>textErrors := textErrors st + 1\<rparr>), w)
      else
        (Completed,
         push (record_of dn dr hr tr ''text'')
           (st\<lparr>textCount := textCount st + 1\<rparr>), w))"
| "step sg dn (Completed, st, w) = (Completed, st, w)"

text \<open>The point a pass is at after \<open>k\<close> steps. Six steps end every pass.\<close>

definition pass_at :: "'w stages \<Rightarrow> string \<Rightarrow> run_state \<times> 'w \<Rightarrow> nat \<Rightarrow> point \<times> run_state \<times> 'w" where
  "pass_at sg dn c k = ((step sg dn) ^^ k) (CallDns, c)"

text \<open>The points of the whole run: the pass of a domain starts in the state the loop has
  reached over the domains \<open>before\<close> it.\<close>

definition run_at ::
  "'w stages \<Rightarrow> string list \<Rightarrow> string \<Rightarrow> run_state \<times> 'w \<Rightarrow> nat \<Rightarrow> point \<times> run_state \<times> 'w" where
  "run_at sg before dn c k = pass_at sg dn (main_loop sg before c) k"

section \<open>Vocabulary of the properties\<close>

subsection \<open>Dotted quads\<close>

text \<open>Four groups of one to three decimal digits, separated by dots: the host is cut at
  its dots, as \<open>split(".")\<close> would.\<close>

fun split_dots :: "string \<Rightarrow> string list" where
  "split_dots [] = [[]]"
| "split_dots (c # cs) =
     (if c = CHR ''.'' then [] # split_dots cs
      else (case split_dots cs of [] \<Rightarrow> [[c]] | g # gs \<Rightarrow> (c # g) # gs))"

definition digit_group :: "string \<Rightarrow> bool" where
  "digit_group g = (1 \<le> length g \<and> length g \<le> 3 \<and> list_all is_digit g)"

definition dotted_quad :: "string \<Rightarrow> bool" where
  "dotted_quad h = (length (split_dots h) = 4 \<and> list_all digit_group (split_dots h))"

subsection \<open>The language of a regular expression\<close>

fun reps :: "nat \<Rightarrow> nat \<Rightarrow> string set \<Rightarrow> string set" where
  "reps m 0 L = (if m = 0 then {[]} else {})"
| "reps m (Suc n) L =
     (if m = 0 then {[]} else {}) \<union> {u @ v | u v. u \<in> L \<and> v \<in> reps (m - 1) n L}"

fun lang :: "rexp \<Rightarrow> string set" where
  "lang Nul = {}"
| "lang Eps = {[]}"
| "lang Digit = {[c] | c. is_digit c}"
| "lang (Lit c) = {[c]}"
| "lang (Alt r s) = lang r \<union> lang s"
| "lang (Then r s) = {u @ v | u v. u \<in> lang r \<and> v \<in> lang s}"
| "lang (Times m n r) = reps m n (lang r)"

text \<open>The expressions whose repetitions are well formed (\<open>m \<le> n\<close>) and have a body that
  does not match the empty string.\<close>

fun plain :: "rexp \<Rightarrow> bool" where
  "plain (Alt r s) = (plain r \<and> plain s)"
| "plain (Then r s) = (plain r \<and> plain s)"
| "plain (Times m n r) = (m \<le> n \<and> \<not> nullable r \<and> plain r)"
| "plain _ = True"

subsection \<open>A world that records the requests of httpCheck\<close>

text \<open>Any world can be run with a log of the requests \<open>httpCheck\<close> makes and of
  their answers; the answers themselves are those of the world.\<close>

definition recording ::
  "('w, 'd) env \<Rightarrow> ('w \<times> (string \<times> probe_reply) list, 'd) env" where
  "recording e =
     \<lparr>resolve4 = (\<lambda>(w, log) dn. case resolve4 e w dn of (r, w') \<Rightarrow> (r, (w', log))),
      axios_get_probe =
        (\<lambda>(w, log) url. case axios_get_probe e w url of (r, w') \<Rightarrow> (r, (w', log @ [(url, r)]))),
      axios_get_page = (\<lambda>(w, log) url. case axios_get_page e w url of (r, w') \<Rightarrow> (r, (w', log))),
      url_hostname = url_hostname e,
      body_text = body_text e\<rparr>"

text \<open>The test of \<open>httpCheck\<close> on a response: a status in \<open>[200, 400)\<close>.\<close>

fun succeeds :: "probe_reply \<Rightarrow> bool" where
  "succeeds ProbeRejects = False"
| "succeeds (ProbeResponse status finalUrl) = (200 \<le> status \<and> status < 400)"

text \<open>The record \<open>httpCheck\<close> returns for a response it accepts.\<close>

definition ok_result :: "int \<Rightarrow> string \<Rightarrow> http_res" where
  "ok_result status finalUrl =
     \<lparr>r_http_ok = True, r_final_url = Some finalUrl, r_status_code = Some status,
      r_used_https = prefix ''https://'' finalUrl\<rparr>"

subsection \<open>A sample world\<close>

text \<open>A small world to run the script in: every request advances a counter; the host
  of a URL is what stands between the scheme and the first slash.\<close>

definition demo_hostname :: "string \<Rightarrow> string option" where
  "demo_hostname url =
     (if prefix ''https://'' url then Some (takeWhile (\<lambda>c. c \<noteq> CHR ''/'') (drop 8 url))
      else if prefix ''http://'' url then Some (takeWhile (\<lambda>c. c \<noteq> CHR ''/'') (drop 7 url))
      else None)"

definition demo_probe :: "string \<Rightarrow> probe_reply" where
  "demo_probe url =
     (if url = ''https://a.test/'' then ProbeResponse 200 ''https://a.test/''
      else if url = ''https://b.test/'' then ProbeResponse 404 ''https://b.test/''
      else if url = ''https://www.b.test/'' then ProbeResponse 301 ''http://b.test/home''
      else if url = ''https://c.test/'' then ProbeResponse 200 ''http://192.0.2.7/''
      else if url = ''https://d.test/'' then ProbeResponse 200 ''http://[2001:db8::1]/''
      else if url = ''https://e.test/'' then ProbeResponse 500 ''https://e.test/''
      else ProbeRejects)"

definition demo_page :: "string \<Rightarrow> jstext page_reply" where
  "demo_page url =
     (if url = ''https://a.test/'' then PageResponse 200 (replicate 250 0x61)
      else if url = ''http://[2001:db8::1]/'' then PageResponse 200 (replicate 12000 0x61)
      else if url = ''http://b.test/home'' then PageResponse 200 [0x20, 0x61, 0x0A, 0x09, 0x62, 0x20]
      else PageRejects)"

definition demo_dns :: "string \<Rightarrow> dns_reply" where
  "demo_dns dn =
     (if dn = ''x.test'' then DnsThrows
      else if dn = ''n.test'' then DnsErr
      else DnsAddresses [''192.0.2.1'', ''192.0.2.2''])"

definition demo_env :: "(nat, jstext) env" where
  "demo_env =
     \<lparr>resolve4 = (\<lambda>w dn. (demo_dns dn, Suc w)),
      axios_get_probe = (\<lambda>w url. (demo_probe url, Suc w)),
      axios_get_page = (\<lambda>w url. (demo_page url, Suc w)),
      url_hostname = demo_hostname,
      body_text = Some\<rparr>"

subsection \<open>Points of a pass\<close>

text \<open>The points at which an awaited call has rejected.\<close>

fun faulted :: "point \<Rightarrow> bool" where
  "faulted (GotDns (Inl f)) = True"
| "faulted (GotHttp dr (Inl f)) = True"
| "faulted (GotText dr hr (Inl f)) = True"
| "faulted pt = False"

text \<open>The points at which a stage call is about to be made.\<close>

fun calling :: "point \<Rightarrow> bool" where
  "calling CallDns = True"
| "calling (CallHttp dr) = True"
| "calling (CallText dr hr) = True"
| "calling pt = False"

text \<open>The six counters of \<open>main\<close>.\<close>

definition counters :: "run_state \<Rightarrow> nat \<times> nat \<times> nat \<times> nat \<times> nat \<times> nat" where
  "counters st =
     (dnsCount st, httpCount st, textCount st, dnsErrors st, httpErrors st, textErrors st)"

subsection \<open>Records and counters\<close>

text \<open>The agreement of \<open>stage\<close> with the three flags of a record.\<close>

definition stage_agrees :: "domain_record \<Rightarrow> bool" where
  "stage_agrees r =
     ((stage r = ''text'' \<longrightarrow> has_dns r \<and> http_ok r \<and> text_ok r)
      \<and> (stage r = ''http'' \<longrightarrow> has_dns r \<and> http_ok r \<and> \<not> text_ok r)
      \<and> (stage r = ''dns'' \<longrightarrow> has_dns r \<and> \<not> http_ok r)
      \<and> (stage r = ''fail'' \<longrightarrow> \<not> has_dns r)
      \<and> stage r \<in> {''text'', ''http'', ''dns'', ''fail''})"

text \<open>The record of the \<open>catch\<close> block.\<close>

definition failed_record :: "string \<Rightarrow> domain_record" where
  "failed_record dn =
     \<lparr>domain = dn, has_dns = False, dns_ips = None, http_ok = False, final_url = None,
      status_code = None, used_https = False, text_ok = False, homepage_text = None,
      stage = ''fail''\<rparr>"

text \<open>The sample run: six rows read, of which four have a domain.\<close>

definition demo_input :: "input_row list" where
  "demo_input =
     [\<lparr>row_domain = Some ''a.test''\<rparr>, \<lparr>row_domain = None\<rparr>, \<lparr>row_domain = Some ''n.test''\<rparr>,
      \<lparr>row_domain = Some []\<rparr>, \<lparr>row_domain = Some ''c.test''\<rparr>, \<lparr>row_domain = Some ''b.test''\<rparr>]"

definition demo_dns_res :: dns_res where
  "demo_dns_res = \<lparr>r_has_dns = True, r_dns_ips = Some ''192.0.2.1;192.0.2.2''\<rparr>"

definition demo_results :: "domain_record list" where
  "demo_results =
     [record_of ''a.test'' demo_dns_res (ok_result 200 ''https://a.test/'')
        \<lparr>r_homepage_text = Some (replicate 250 0x61), r_text_ok = True\<rparr> ''text'',
      record_of ''n.test'' \<lparr>r_has_dns = False, r_dns_ips = None\<rparr> http_not_ok text_not_ok ''fail'',
      record_of ''c.test'' demo_dns_res http_not_ok text_not_ok ''dns'',
      record_of ''b.test'' demo_dns_res (ok_result 301 ''http://b.test/home'') text_not_ok ''http'']"

text \<open>The number of stage results the loop body has accepted at a point of a pass.\<close>

fun passed :: "point \<Rightarrow> nat" where
  "passed CallDns = 0"
| "passed (GotDns out) = 0"
| "passed (CallHttp dr) = 1"
| "passed (GotHttp dr out) = 1"
| "passed (CallText dr hr) = 2"
| "passed (GotText dr hr out) = 2"
| "passed Completed = 3"

text \<open>Stage calls as those of the sample world, but with a Probe that throws.\<close>

definition demo_faulty :: "nat stages" where
  "demo_faulty = (stage_calls demo_env)\<lparr>http_call := (\<lambda>w dn. (Inl Thrown, Suc w))\<rparr>"

text \<open>The counters of the script balance: successes and failures of a stage add up to
  its attempts, and the successes are those of the records.\<close>

definition balanced :: "run_state \<Rightarrow> bool" where
  "balanced st =
     (dnsCount st + dnsErrors st = length (results st)
      \<and> httpCount st + httpErrors st = dnsCount st
      \<and> textCount st + textErrors st = httpCount st
      \<and> dnsCount st = length (filter has_dns (results st))
      \<and> httpCount st = length (filter http_ok (results st))
      \<and> textCount st = length (filter text_ok (results st)))"

text \<open>The counters of a pass that started in \<open>st\<close>, once \<open>n\<close> of its stage results have
  been accepted (\<open>n \<le> 2\<close>).\<close>

definition bumped :: "run_state \<Rightarrow> nat \<Rightarrow> nat \<times> nat \<times> nat \<times> nat \<times> nat \<times> nat" where
  "bumped st n =
     (dnsCount st + (if 1 \<le> n then 1 else 0), httpCount st + (if 2 \<le> n then 1 else 0),
      textCount st, dnsErrors st, httpErrors st, textErrors st)"

section \<open>Properties\<close>

subsection \<open>The pattern of isIpHost matches the dotted quads\<close>

lemma nil_in_reps: "[] \<notin> L \<Longrightarrow> m \<le> n \<Longrightarrow> ([] \<in> reps m n L) = (m = 0)"
  by (cases n) auto

lemma nullable_lang: "plain r \<Longrightarrow> nullable r = ([] \<in> lang r)"
  by (induction r) (auto simp: nil_in_reps)

lemma deriv_reps:
  "[] \<notin> L \<Longrightarrow> (c # s \<in> reps m n L) = (0 < n \<and> (\<exists>u v. s = u @ v \<and> c # u \<in> L \<and> v \<in> reps (m - 1) (n - 1) L))"
  apply (cases n)
   apply (auto simp: Cons_eq_append_conv)
  done

lemma plain_deriv: "plain r \<Longrightarrow> plain (deriv c r)"
  by (induction r) auto

lemma lang_deriv: "plain r \<Longrightarrow> (s \<in> lang (deriv c r)) = (c # s \<in> lang r)"
proof (induction r arbitrary: s)
  case (Then r1 r2)
  then show ?case
    by (auto simp: nullable_lang Cons_eq_append_conv) 
next
  case (Times m n r)
  from Times.prems have "[] \<notin> lang r"
    using nullable_lang [of r] by simp
  with Times show ?case
    by (simp add: deriv_reps)
qed auto

lemma matches_lang: "plain r \<Longrightarrow> matches r s = (s \<in> lang r)"
  unfolding matches_def
  by (induction s arbitrary: r) (auto simp: nullable_lang lang_deriv plain_deriv)

lemma reps_step:
  assumes "u \<in> L" and "v \<in> reps (m - 1) n L"
  shows "u @ v \<in> reps m (Suc n) L"
proof -
  have "u @ v \<in> {u @ v | u v. u \<in> L \<and> v \<in> reps (m - 1) n L}"
    using assms by (intro CollectI exI [of _ u] exI [of _ v]) simp
  then show ?thesis
    by (subst reps.simps(2)) (rule UnI2)
qed

lemma singles_reps: "\<forall>c\<in>set t. [c] \<in> L \<Longrightarrow> length t \<le> n \<Longrightarrow> t \<in> reps 0 n L"
proof (induction t arbitrary: n)
  case Nil
  show ?case by (cases n) simp_all
next
  case (Cons a t)
  from Cons.prems obtain k where n: "n = Suc k" and k: "length t \<le> k"
    by (cases n) simp_all
  from Cons.prems have "\<forall>c\<in>set t. [c] \<in> L" and a: "[a] \<in> L"
    by simp_all
  with k have "t \<in> reps (0 - 1) k L"
    using Cons.IH [of k] by simp
  with a have "[a] @ t \<in> reps 0 (Suc k) L"
    by (rule reps_step)
  with n show ?case by simp
qed

lemma digits_lang: "(g \<in> lang (Times 1 3 Digit)) = digit_group g"
proof
  assume "g \<in> lang (Times 1 3 Digit)"
  then show "digit_group g"
    by (auto simp: digit_group_def eval_nat_numeral)
next
  assume g: "digit_group g"
  then obtain a t where gt: "g = [a] @ t" "is_digit a" "length t \<le> 2" "list_all is_digit t"
    by (cases g) (auto simp: digit_group_def)
  then have "\<forall>c\<in>set t. [c] \<in> lang Digit"
    by (simp add: list_all_iff)
  with gt have "t \<in> reps (1 - 1) 2 (lang Digit)"
    by (simp add: singles_reps del: lang.simps)
  moreover have "[a] \<in> lang Digit" using gt by simp
  ultimately have "[a] @ t \<in> reps 1 (Suc 2) (lang Digit)"
    by (rule reps_step [rotated])
  with gt show "g \<in> lang (Times 1 3 Digit)"
    by (simp add: eval_nat_numeral del: reps.simps)
qed

lemma reps_3_3: "(v \<in> reps 3 3 L) = (\<exists>x y z. v = x @ y @ z \<and> x \<in> L \<and> y \<in> L \<and> z \<in> L)"
  by (auto simp: eval_nat_numeral)

lemma dot_group_lang:
  "(x \<in> lang (Then (Lit CHR ''.'') (Times 1 3 Digit))) = (\<exists>g. x = ''.'' @ g \<and> digit_group g)"
  using digits_lang by auto

lemma ip_lang:
  "(h \<in> lang ip_pattern) =
     (\<exists>a b c d. h = a @ ''.'' @ b @ ''.'' @ c @ ''.'' @ d
        \<and> digit_group a \<and> digit_group b \<and> digit_group c \<and> digit_group d)"
proof -
  have "(h \<in> lang ip_pattern) =
      (\<exists>a v. h = a @ v \<and> digit_group a
         \<and> v \<in> reps 3 3 (lang (Then (Lit CHR ''.'') (Times 1 3 Digit))))"
    unfolding ip_pattern_def lang.simps(6) lang.simps(7)[of 3 3]
    using digits_lang by auto
  also have "\<dots> = (\<exists>a b c d. h = a @ ''.'' @ b @ ''.'' @ c @ ''.'' @ d
        \<and> digit_group a \<and> digit_group b \<and> digit_group c \<and> digit_group d)"
    unfolding reps_3_3 dot_group_lang
  proof (intro iffI; elim exE conjE)
    fix a v x y z gx gy gz
    assume "h = a @ v" "v = x @ y @ z" "x = ''.'' @ gx" "y = ''.'' @ gy" "z = ''.'' @ gz"
      and "digit_group a" "digit_group gx" "digit_group gy" "digit_group gz"
    then show "\<exists>a b c d. h = a @ ''.'' @ b @ ''.'' @ c @ ''.'' @ d
        \<and> digit_group a \<and> digit_group b \<and> digit_group c \<and> digit_group d"
      by auto
  next
    fix a b c d
    assume "h = a @ ''.'' @ b @ ''.'' @ c @ ''.'' @ d"
      and g: "digit_group a" "digit_group b" "digit_group c" "digit_group d"
    then have "h = a @ ((''.'' @ b) @ (''.'' @ c) @ (''.'' @ d))" by simp
    with g show "\<exists>a v. h = a @ v \<and> digit_group a \<and>
        (\<exists>x y z. v = x @ y @ z \<and> (\<exists>g. x = ''.'' @ g \<and> digit_group g)
           \<and> (\<exists>g. y = ''.'' @ g \<and> digit_group g) \<and> (\<exists>g. z = ''.'' @ g \<and> digit_group g))"
      by blast
  qed
  finally show ?thesis .
qed

lemma split_dots_not_Nil: "split_dots h \<noteq> []"
  by (induction h) (auto split: list.splits)

lemma join_split_dots: "join ''.'' (split_dots h) = h"
proof (induction h)
  case Nil
  then show ?case by simp
next
  case (Cons c h)
  obtain g gs where s: "split_dots h = g # gs"
    using split_dots_not_Nil by (cases "split_dots h") auto
  with Cons show ?case
    by (cases gs) auto
qed

lemma split_dots_group: "CHR ''.'' \<notin> set a \<Longrightarrow> split_dots a = [a]"
  by (induction a) auto

lemma split_dots_append:
  "CHR ''.'' \<notin> set a \<Longrightarrow> split_dots (a @ CHR ''.'' # rest) = a # split_dots rest"
  by (induction a) auto

lemma not_digit_dot: "\<not> is_digit CHR ''.''"
  by (simp add: is_digit_def)

lemma digit_group_no_dot: "digit_group g \<Longrightarrow> CHR ''.'' \<notin> set g"
  using not_digit_dot by (auto simp: digit_group_def list_all_iff)

lemma plain_ip_pattern: "plain ip_pattern"
  by (simp add: ip_pattern_def)

lemma matches_ip_pattern: "matches ip_pattern h = dotted_quad h"
proof -
  have "(h \<in> lang ip_pattern) = dotted_quad h"
  proof
    assume "h \<in> lang ip_pattern"
    then obtain a b c d where h: "h = a @ ''.'' @ b @ ''.'' @ c @ ''.'' @ d"
      and g: "digit_group a" "digit_group b" "digit_group c" "digit_group d"
      unfolding ip_lang by blast
    from g have "split_dots h = [a, b, c, d]"
      unfolding h by (simp add: split_dots_append split_dots_group digit_group_no_dot)
    with g show "dotted_quad h"
      by (simp add: dotted_quad_def)
  next
    assume dq: "dotted_quad h"
    then obtain a b c d where s: "split_dots h = [a, b, c, d]"
      by (auto simp: dotted_quad_def length_Suc_conv eval_nat_numeral)
    with dq have g: "digit_group a" "digit_group b" "digit_group c" "digit_group d"
      by (auto simp: dotted_quad_def)
    have "h = join ''.'' [a, b, c, d]"
      using join_split_dots [of h] s by simp
    then have "h = a @ ''.'' @ b @ ''.'' @ c @ ''.'' @ d" by simp
    with g show "h \<in> lang ip_pattern"
      unfolding ip_lang by blast
  qed
  then show ?thesis
    by (simp add: matches_lang plain_ip_pattern)
qed

subsection \<open>fetchText\<close>

lemma collapse_spaces_plain: "\<forall>c\<in>set t. \<not> is_space c \<Longrightarrow> collapse_spaces t = t"
  by (induction t) auto

lemma dropWhile_none: "\<forall>c\<in>set t. \<not> P c \<Longrightarrow> dropWhile P t = t"
  by (cases t) auto

lemma trim_plain: "\<forall>c\<in>set t. \<not> is_space c \<Longrightarrow> trim t = t"
  by (simp add: trim_def dropWhile_none)

lemma not_space_a: "\<not> is_space 0x61"
  by (simp add: is_space_def)

text \<open>Claim C6: when \<open>fetchText\<close> returns \<open>text_ok = true\<close>, \<open>homepage_text\<close> is present
  and has between \<open>TEXT_MIN_CHARS\<close> (200) and \<open>TEXT_MAX_CHARS\<close> (10000) code units; when it
  returns \<open>text_ok = false\<close>, \<open>homepage_text\<close> is absent.\<close>

theorem fetchText_bounds:
  "fetchText e w url = (tr, w') \<Longrightarrow>
     (r_text_ok tr \<longrightarrow>
        (\<exists>t. r_homepage_text tr = Some t \<and> 200 \<le> length t \<and> length t \<le> 10000))
     \<and> (\<not> r_text_ok tr \<longrightarrow> r_homepage_text tr = None)"
  by (auto simp: fetchText_def text_not_ok_def TEXT_MIN_CHARS_def TEXT_MAX_CHARS_def Let_def
      split: option.splits prod.splits page_reply.splits if_splits)

lemma demo_text_a:
  "fetchText demo_env 0 (Some ''https://a.test/'') =
     (\<lparr>r_homepage_text = Some (replicate 250 0x61), r_text_ok = True\<rparr>, 1)"
  by (simp add: fetchText_def demo_env_def demo_page_def collapse_spaces_plain trim_plain
      not_space_a TEXT_MIN_CHARS_def TEXT_MAX_CHARS_def)

lemma demo_text_none:
  "fetchText demo_env 0 (Some ''https://n.test/'') = (text_not_ok, 1)"
  by (simp add: fetchText_def demo_env_def demo_page_def)

lemma demo_text_long:
  "fetchText demo_env 0 (Some ''http://[2001:db8::1]/'') =
     (\<lparr>r_homepage_text = Some (replicate 10000 0x61), r_text_ok = True\<rparr>, 1)"
  by (simp add: fetchText_def demo_env_def demo_page_def collapse_spaces_plain trim_plain
      not_space_a TEXT_MIN_CHARS_def TEXT_MAX_CHARS_def)

theorem fetchText_bounds_witness:
  "fetchText demo_env 0 (Some ''https://a.test/'') =
     (\<lparr>r_homepage_text = Some (replicate 250 0x61), r_text_ok = True\<rparr>, 1)
   \<and> (200::nat) \<le> length (replicate 250 (0x61::code_unit))
   \<and> length (replicate 250 (0x61::code_unit)) \<le> 10000
   \<and> fetchText demo_env 0 (Some ''http://[2001:db8::1]/'') =
     (\<lparr>r_homepage_text = Some (replicate 10000 0x61), r_text_ok = True\<rparr>, 1)
   \<and> length (replicate 10000 (0x61::code_unit)) \<le> 10000
   \<and> fetchText demo_env 0 (Some ''https://n.test/'') = (text_not_ok, 1)
   \<and> \<not> r_text_ok text_not_ok \<and> r_homepage_text text_not_ok = None"
  using fetchText_bounds [OF demo_text_a] fetchText_bounds [OF demo_text_long]
    fetchText_bounds [OF demo_text_none] demo_text_a demo_text_long demo_text_none
  by (simp add: text_not_ok_def)

subsection \<open>httpCheck in a recording world\<close>

lemma isIpHost_recording [simp]: "isIpHost (recording e) = isIpHost e"
  by (rule ext) (simp add: isIpHost_def recording_def)

lemma probe_recording:
  "axios_get_probe (recording e) (w, log) url =
     (fst (axios_get_probe e w url), (snd (axios_get_probe e w url), log @ [(url, fst (axios_get_probe e w url))]))"
  by (simp add: recording_def split: prod.splits)

lemma loop_recording_same:
  "fst (httpCheck_loop (recording e) (w, log) us) = fst (httpCheck_loop e w us)
   \<and> fst (snd (httpCheck_loop (recording e) (w, log) us)) = snd (httpCheck_loop e w us)"
proof (induction us arbitrary: w log)
  case Nil
  show ?case by simp
next
  case (Cons u us)
  obtain rep w1 where g: "axios_get_probe e w u = (rep, w1)"
    by (cases "axios_get_probe e w u")
  show ?case
    using Cons.IH [of w1 "log @ [(u, rep)]"]
    by (cases rep) (simp_all add: probe_recording g)
qed

lemma loop_log:
  "httpCheck_loop (recording e) (w, log) us = (r, (w', log')) \<Longrightarrow>
     \<exists>new. log' = log @ new \<and> length new \<le> length us \<and> map fst new = take (length new) us
       \<and> (\<forall>rep\<in>set (butlast (map snd new)). \<not> succeeds rep)
       \<and> (if new \<noteq> [] \<and> succeeds (snd (last new))
           then (\<exists>s f. snd (last new) = ProbeResponse s f
                 \<and> r = (if isIpHost e f then http_not_ok else ok_result s f))
           else length new = length us \<and> r = http_not_ok)"
proof (induction us arbitrary: w log)
  case Nil
  then show ?case by simp
next
  case (Cons u us)
  obtain rep w1 where g: "axios_get_probe e w u = (rep, w1)"
    by (cases "axios_get_probe e w u")
  show ?case
  proof (cases "succeeds rep")
    case True
    then obtain s f where rep: "rep = ProbeResponse s f" and s: "200 \<le> s" "s < 400"
      by (cases rep) auto
    with Cons.prems g have "log' = log @ [(u, rep)]"
      and "r = (if isIpHost e f then http_not_ok else ok_result s f)"
      by (auto simp: probe_recording ok_result_def split: if_splits)
    with rep s show ?thesis
      by (intro exI [of _ "[(u, rep)]"]) simp
  next
    case False
    with Cons.prems g
    have "httpCheck_loop (recording e) (w1, log @ [(u, rep)]) us = (r, (w', log'))"
      by (cases rep) (auto simp: probe_recording)
    from Cons.IH [OF this] obtain new where new: "log' = (log @ [(u, rep)]) @ new"
      "length new \<le> length us" "map fst new = take (length new) us"
      "\<forall>rep\<in>set (butlast (map snd new)). \<not> succeeds rep"
      "if new \<noteq> [] \<and> succeeds (snd (last new))
       then (\<exists>s f. snd (last new) = ProbeResponse s f
             \<and> r = (if isIpHost e f then http_not_ok else ok_result s f))
       else length new = length us \<and> r = http_not_ok"
      by blast
    with False show ?thesis
      by (intro exI [of _ "(u, rep) # new"]) (auto split: if_splits)
  qed
qed

lemma httpCheck_log:
  assumes "httpCheck (recording e) (w, []) dn = (r, (w', log))"
  shows "1 \<le> length log \<and> length log \<le> 4 \<and> map fst log = take (length log) (urls dn)
     \<and> (\<forall>rep\<in>set (butlast (map snd log)). \<not> succeeds rep)
     \<and> (if succeeds (snd (last log))
         then (\<exists>s f. snd (last log) = ProbeResponse s f
               \<and> r = (if isIpHost e f then http_not_ok else ok_result s f))
         else length log = 4 \<and> r = http_not_ok)"
proof -
  have four: "length (urls dn) = 4"
    by (simp add: urls_def)
  from assms have "httpCheck_loop (recording e) (w, []) (urls dn) = (r, (w', log))"
    by (simp add: httpCheck_def)
  from loop_log [OF this] four have log: "length log \<le> 4"
    "map fst log = take (length log) (urls dn)"
    "\<forall>rep\<in>set (butlast (map snd log)). \<not> succeeds rep"
    "if log \<noteq> [] \<and> succeeds (snd (last log))
     then (\<exists>s f. snd (last log) = ProbeResponse s f
           \<and> r = (if isIpHost e f then http_not_ok else ok_result s f))
     else length log = 4 \<and> r = http_not_ok"
    by auto
  from log(4) have "log \<noteq> []"
    by (auto split: if_splits)
  with log show ?thesis
    by (cases log) (simp_all split: if_splits)
qed

lemma httpCheck_recording_same:
  "httpCheck (recording e) (w, []) dn = (r, (w', log)) \<Longrightarrow> httpCheck e w dn = (r, w')"
  using loop_recording_same [of e w "[]" "urls dn"]
  by (simp add: httpCheck_def prod_eq_iff)

lemma isIpHost_iff: "isIpHost e url = (\<exists>h. url_hostname e url = Some h \<and> dotted_quad h)"
  by (simp add: isIpHost_def matches_ip_pattern split: option.splits)

lemma dotted_quad_chars:
  assumes "dotted_quad h" and "c \<in> set h"
  shows "is_digit c \<or> c = CHR ''.''"
proof -
  from assms(1) have "h \<in> lang ip_pattern"
    using matches_ip_pattern [of h] matches_lang [OF plain_ip_pattern, of h] by simp
  then obtain a b c' d where h: "h = a @ ''.'' @ b @ ''.'' @ c' @ ''.'' @ d"
    and g: "digit_group a" "digit_group b" "digit_group c'" "digit_group d"
    unfolding ip_lang by blast
  from g have "\<forall>x\<in>set a \<union> set b \<union> set c' \<union> set d. is_digit x"
    by (auto simp: digit_group_def list_all_iff)
  with assms(2) show ?thesis
    unfolding h by auto
qed

lemma not_digit_colon: "\<not> is_digit CHR '':''"
  by (simp add: is_digit_def)

text \<open>Claim C4: \<open>httpCheck\<close> requests the candidates \<open>https://domain/\<close>,
  \<open>https://www.domain/\<close>, \<open>http://domain/\<close>, \<open>http://www.domain/\<close> in that order and no
  other URL: the log of its requests is the first \<open>k\<close> candidates, with \<open>1 \<le> k \<le> 4\<close>.
  Every request but the last was rejected or answered with a status outside
  \<open>[200, 400)\<close>, so the loop goes on after a failure and returns at the first response
  with a status in \<open>[200, 400)\<close>, with the record made from that response. When the last
  request failed as well, all four candidates were tried and the result has
  \<open>http_ok = false\<close> with \<open>final_url\<close> and \<open>status_code\<close> absent. The log does not change
  what \<open>httpCheck\<close> returns.\<close>

theorem httpCheck_candidates:
  assumes "httpCheck (recording e) (w, []) dn = (r, (w', log))"
  shows "httpCheck e w dn = (r, w')
     \<and> 1 \<le> length log \<and> length log \<le> 4
     \<and> map fst log =
         take (length log)
           [''https://'' @ dn @ ''/'', ''https://www.'' @ dn @ ''/'',
            ''http://'' @ dn @ ''/'', ''http://www.'' @ dn @ ''/'']
     \<and> (\<forall>rep\<in>set (butlast (map snd log)). \<not> succeeds rep)
     \<and> (succeeds (snd (last log)) \<longrightarrow>
          (\<exists>s f. snd (last log) = ProbeResponse s f \<and> 200 \<le> s \<and> s < 400
             \<and> r = (if isIpHost e f then http_not_ok else ok_result s f)))
     \<and> (\<not> succeeds (snd (last log)) \<longrightarrow>
          length log = 4 \<and> \<not> r_http_ok r \<and> r_final_url r = None \<and> r_status_code r = None)"
proof -
  note L = httpCheck_log [OF assms]
  have ok: "succeeds (snd (last log)) \<longrightarrow>
      (\<exists>s f. snd (last log) = ProbeResponse s f \<and> 200 \<le> s \<and> s < 400
         \<and> r = (if isIpHost e f then http_not_ok else ok_result s f))"
  proof
    assume s: "succeeds (snd (last log))"
    with L obtain st f where "snd (last log) = ProbeResponse st f"
      "r = (if isIpHost e f then http_not_ok else ok_result st f)"
      by auto
    with s show "\<exists>s f. snd (last log) = ProbeResponse s f \<and> 200 \<le> s \<and> s < 400
         \<and> r = (if isIpHost e f then http_not_ok else ok_result s f)"
      by (intro exI [of _ st] exI [of _ f]) simp
  qed
  have none: "\<not> succeeds (snd (last log)) \<longrightarrow>
      length log = 4 \<and> \<not> r_http_ok r \<and> r_final_url r = None \<and> r_status_code r = None"
    using L by (simp add: http_not_ok_def)
  from L have "map fst log = take (length log)
      [''https://'' @ dn @ ''/'', ''https://www.'' @ dn @ ''/'',
       ''http://'' @ dn @ ''/'', ''http://www.'' @ dn @ ''/'']"
    by (simp add: urls_def)
  with L ok none httpCheck_recording_same [OF assms] show ?thesis
    by blast
qed

lemma demo_probe_b:
  "httpCheck (recording demo_env) (0, []) ''b.test'' =
     (ok_result 301 ''http://b.test/home'',
      (2, [(''https://b.test/'', ProbeResponse 404 ''https://b.test/''),
           (''https://www.b.test/'', ProbeResponse 301 ''http://b.test/home'')]))"
  by (simp add: httpCheck_def urls_def recording_def demo_env_def demo_probe_def isIpHost_def
      demo_hostname_def matches_def ip_pattern_def is_digit_def ok_result_def)

lemma demo_probe_e:
  "httpCheck (recording demo_env) (0, []) ''e.test'' =
     (http_not_ok,
      (4, [(''https://e.test/'', ProbeResponse 500 ''https://e.test/''),
           (''https://www.e.test/'', ProbeRejects),
           (''http://e.test/'', ProbeRejects),
           (''http://www.e.test/'', ProbeRejects)]))"
  by (simp add: httpCheck_def urls_def recording_def demo_env_def demo_probe_def)

theorem httpCheck_candidates_witness:
  "httpCheck (recording demo_env) (0, []) ''b.test'' =
     (ok_result 301 ''http://b.test/home'',
      (2, [(''https://b.test/'', ProbeResponse 404 ''https://b.test/''),
           (''https://www.b.test/'', ProbeResponse 301 ''http://b.test/home'')]))
   \<and> httpCheck demo_env 0 ''b.test'' = (ok_result 301 ''http://b.test/home'', 2)
   \<and> \<not> succeeds (ProbeResponse 404 ''https://b.test/'')
   \<and> succeeds (ProbeResponse 301 ''http://b.test/home'')
   \<and> httpCheck (recording demo_env) (0, []) ''e.test'' =
     (http_not_ok,
      (4, [(''https://e.test/'', ProbeResponse 500 ''https://e.test/''),
           (''https://www.e.test/'', ProbeRejects),
           (''http://e.test/'', ProbeRejects),
           (''http://www.e.test/'', ProbeRejects)]))
   \<and> httpCheck demo_env 0 ''e.test'' = (http_not_ok, 4)
   \<and> \<not> succeeds ProbeRejects
   \<and> \<not> r_http_ok http_not_ok \<and> r_final_url http_not_ok = None
   \<and> r_status_code http_not_ok = None"
  using httpCheck_candidates [OF demo_probe_b] httpCheck_candidates [OF demo_probe_e]
    demo_probe_b demo_probe_e
  by (simp add: http_not_ok_def)

text \<open>Claim C5: when \<open>httpCheck\<close> returns \<open>http_ok = true\<close>, the host of the \<open>final_url\<close> it
  returns is not a dotted quad; and when the host of the final URL of the last response
  \<open>httpCheck\<close> received is a dotted quad, the result is not ok, with \<open>final_url\<close> and
  \<open>status_code\<close> absent.\<close>

theorem httpCheck_no_ip_host:
  assumes "httpCheck (recording e) (w, []) dn = (r, (w', log))"
  shows "httpCheck e w dn = (r, w')
     \<and> (r_http_ok r \<longrightarrow>
          (\<exists>u. r_final_url r = Some u \<and> \<not> isIpHost e u
             \<and> (\<forall>h. url_hostname e u = Some h \<longrightarrow> \<not> dotted_quad h)))
     \<and> (\<forall>s f h. snd (last log) = ProbeResponse s f \<and> url_hostname e f = Some h \<and> dotted_quad h
          \<longrightarrow> \<not> r_http_ok r \<and> r_final_url r = None \<and> r_status_code r = None)"
proof -
  note L = httpCheck_log [OF assms]
  have one: "r_http_ok r \<longrightarrow>
      (\<exists>u. r_final_url r = Some u \<and> \<not> isIpHost e u
         \<and> (\<forall>h. url_hostname e u = Some h \<longrightarrow> \<not> dotted_quad h))"
  proof
    assume "r_http_ok r"
    with L obtain s f where "r = ok_result s f" "\<not> isIpHost e f"
      by (auto simp: http_not_ok_def split: if_splits)
    then show "\<exists>u. r_final_url r = Some u \<and> \<not> isIpHost e u
         \<and> (\<forall>h. url_hostname e u = Some h \<longrightarrow> \<not> dotted_quad h)"
      by (intro exI [of _ f]) (simp add: ok_result_def isIpHost_iff)
  qed
  have two: "\<forall>s f h. snd (last log) = ProbeResponse s f \<and> url_hostname e f = Some h \<and> dotted_quad h
          \<longrightarrow> \<not> r_http_ok r \<and> r_final_url r = None \<and> r_status_code r = None"
  proof (intro allI impI, elim conjE)
    fix s f h
    assume "snd (last log) = ProbeResponse s f" "url_hostname e f = Some h" "dotted_quad h"
    with L have "r = http_not_ok"
      by (auto simp: isIpHost_iff split: if_splits)
    then show "\<not> r_http_ok r \<and> r_final_url r = None \<and> r_status_code r = None"
      by (simp add: http_not_ok_def)
  qed
  from one two httpCheck_recording_same [OF assms] show ?thesis
    by blast
qed

lemma demo_probe_a:
  "httpCheck (recording demo_env) (0, []) ''a.test'' =
     (ok_result 200 ''https://a.test/'',
      (1, [(''https://a.test/'', ProbeResponse 200 ''https://a.test/'')]))"
  by (simp add: httpCheck_def urls_def recording_def demo_env_def demo_probe_def isIpHost_def
      demo_hostname_def matches_def ip_pattern_def is_digit_def ok_result_def)

lemma demo_probe_c:
  "httpCheck (recording demo_env) (0, []) ''c.test'' =
     (http_not_ok, (1, [(''https://c.test/'', ProbeResponse 200 ''http://192.0.2.7/'')]))"
  by (simp add: httpCheck_def urls_def recording_def demo_env_def demo_probe_def isIpHost_def
      demo_hostname_def matches_def ip_pattern_def is_digit_def)

lemma demo_hostname_a: "url_hostname demo_env ''https://a.test/'' = Some ''a.test''"
  by (simp add: demo_env_def demo_hostname_def)

lemma demo_hostname_c: "url_hostname demo_env ''http://192.0.2.7/'' = Some ''192.0.2.7''"
  by (simp add: demo_env_def demo_hostname_def)

lemma dotted_quad_demo: "dotted_quad ''192.0.2.7''"
  by (simp add: dotted_quad_def digit_group_def is_digit_def)

theorem httpCheck_no_ip_host_witness:
  "httpCheck (recording demo_env) (0, []) ''a.test'' =
     (ok_result 200 ''https://a.test/'',
      (1, [(''https://a.test/'', ProbeResponse 200 ''https://a.test/'')]))
   \<and> r_http_ok (ok_result 200 ''https://a.test/'')
   \<and> r_final_url (ok_result 200 ''https://a.test/'') = Some ''https://a.test/''
   \<and> url_hostname demo_env ''https://a.test/'' = Some ''a.test''
   \<and> \<not> dotted_quad ''a.test''
   \<and> httpCheck (recording demo_env) (0, []) ''c.test'' =
     (http_not_ok, (1, [(''https://c.test/'', ProbeResponse 200 ''http://192.0.2.7/'')]))
   \<and> url_hostname demo_env ''http://192.0.2.7/'' = Some ''192.0.2.7''
   \<and> dotted_quad ''192.0.2.7''
   \<and> \<not> r_http_ok http_not_ok \<and> r_final_url http_not_ok = None
   \<and> r_status_code http_not_ok = None"
  using httpCheck_no_ip_host [OF demo_probe_a] httpCheck_no_ip_host [OF demo_probe_c]
    demo_probe_a demo_probe_c demo_hostname_a demo_hostname_c dotted_quad_demo
  by (simp add: ok_result_def http_not_ok_def)

text \<open>Claim C9: when a candidate is answered with a status in \<open>[200, 400)\<close> and the host of
  the final URL is a dotted quad, \<open>httpCheck\<close> returns the not-ok result at once: that
  request is the last of the log, so the candidates after it are never requested.\<close>

theorem httpCheck_ip_host_returns_at_once:
  assumes "httpCheck (recording e) (w, []) dn = (r, (w', log))"
    and "j < length log" and "log ! j = (u, ProbeResponse s f)"
    and "200 \<le> s" and "s < 400" and "isIpHost e f"
  shows "r = http_not_ok \<and> httpCheck e w dn = (http_not_ok, w')
     \<and> length log = Suc j \<and> u = urls dn ! j"
proof -
  note L = httpCheck_log [OF assms(1)]
  have last: "Suc j = length log"
  proof (rule ccontr)
    assume "Suc j \<noteq> length log"
    with assms(2) have j: "j < length (butlast (map snd log))"
      by simp
    then have "butlast (map snd log) ! j \<in> set (butlast (map snd log))"
      by (rule nth_mem)
    moreover have "butlast (map snd log) ! j = ProbeResponse s f"
      using j assms(2,3) by (simp add: nth_butlast)
    ultimately show False
      using L assms(4,5) by auto
  qed
  with assms(2) have "last log = log ! j"
    by (cases log rule: rev_cases) (auto simp: nth_append)
  with assms(3-6) L have r: "r = http_not_ok"
    by (auto split: if_splits)
  have "map fst log ! j = take (length log) (urls dn) ! j"
    using L by simp
  with assms(2,3) have "u = urls dn ! j"
    by simp
  with r last httpCheck_recording_same [OF assms(1)] show ?thesis
    by simp
qed

theorem httpCheck_ip_host_returns_at_once_witness:
  "httpCheck (recording demo_env) (0, []) ''c.test'' =
     (http_not_ok, (1, [(''https://c.test/'', ProbeResponse 200 ''http://192.0.2.7/'')]))
   \<and> (0::nat) < length [(''https://c.test/'', ProbeResponse 200 ''http://192.0.2.7/'')]
   \<and> (200::int) \<le> 200 \<and> (200::int) < 400
   \<and> isIpHost demo_env ''http://192.0.2.7/''
   \<and> httpCheck demo_env 0 ''c.test'' = (http_not_ok, 1)
   \<and> ''https://c.test/'' = urls ''c.test'' ! 0"
proof -
  have ip: "isIpHost demo_env ''http://192.0.2.7/''"
    by (simp add: isIpHost_iff demo_hostname_c dotted_quad_demo)
  from httpCheck_ip_host_returns_at_once [OF demo_probe_c, of 0 "''https://c.test/''" 200
      "''http://192.0.2.7/''"] ip demo_probe_c
  show ?thesis
    by simp
qed

text \<open>Claim C10: \<open>isIpHost\<close> is true exactly when the URL parses and its host name is four
  groups of one to three decimal digits separated by dots, whatever the value of a
  group (\<open>999.999.999.999\<close> is one); it is false for a host with a colon, as every IPv6
  literal has, and for a URL that does not parse. So \<open>httpCheck\<close> returns \<open>http_ok = true\<close>
  for a response with a status in \<open>[200, 400)\<close> whose final URL has an IPv6 literal as
  host.\<close>

theorem isIpHost_dotted_quads_only:
  "(isIpHost e url \<longleftrightarrow> (\<exists>h. url_hostname e url = Some h \<and> dotted_quad h))
   \<and> dotted_quad ''999.999.999.999''
   \<and> (url_hostname e url = Some h \<and> CHR '':'' \<in> set h \<longrightarrow> \<not> isIpHost e url)
   \<and> (url_hostname e url = None \<longrightarrow> \<not> isIpHost e url)
   \<and> (axios_get_probe e w (''https://'' @ dn @ ''/'') = (ProbeResponse s f, w')
        \<and> 200 \<le> s \<and> s < 400 \<and> url_hostname e f = Some h \<and> CHR '':'' \<in> set h
      \<longrightarrow> httpCheck e w dn = (ok_result s f, w') \<and> r_http_ok (ok_result s f)
          \<and> r_final_url (ok_result s f) = Some f)"
proof -
  have colon: "CHR '':'' \<in> set h \<Longrightarrow> \<not> dotted_quad h"
    using dotted_quad_chars [of h "CHR '':''"] not_digit_colon by auto
  have "dotted_quad ''999.999.999.999''"
    by (simp add: dotted_quad_def digit_group_def is_digit_def)
  moreover have "url_hostname e url = Some h \<and> CHR '':'' \<in> set h \<longrightarrow> \<not> isIpHost e url"
    using colon by (auto simp: isIpHost_iff)
  moreover have "axios_get_probe e w (''https://'' @ dn @ ''/'') = (ProbeResponse s f, w')
        \<and> 200 \<le> s \<and> s < 400 \<and> url_hostname e f = Some h \<and> CHR '':'' \<in> set h
      \<longrightarrow> httpCheck e w dn = (ok_result s f, w') \<and> r_http_ok (ok_result s f)
          \<and> r_final_url (ok_result s f) = Some f"
    using colon by (auto simp: httpCheck_def urls_def isIpHost_iff ok_result_def)
  ultimately show ?thesis
    by (simp add: isIpHost_iff)
qed

lemma demo_hostname_d: "url_hostname demo_env ''http://[2001:db8::1]/'' = Some ''[2001:db8::1]''"
  by (simp add: demo_env_def demo_hostname_def)

theorem isIpHost_dotted_quads_only_witness:
  "url_hostname demo_env ''http://[2001:db8::1]/'' = Some ''[2001:db8::1]''
   \<and> CHR '':'' \<in> set ''[2001:db8::1]''
   \<and> \<not> isIpHost demo_env ''http://[2001:db8::1]/''
   \<and> url_hostname demo_env ''ftp.example'' = None
   \<and> \<not> isIpHost demo_env ''ftp.example''
   \<and> axios_get_probe demo_env 0 (''https://'' @ ''d.test'' @ ''/'') =
       (ProbeResponse 200 ''http://[2001:db8::1]/'', 1)
   \<and> httpCheck demo_env 0 ''d.test'' = (ok_result 200 ''http://[2001:db8::1]/'', 1)
   \<and> r_http_ok (ok_result 200 ''http://[2001:db8::1]/'')"
proof -
  have none: "url_hostname demo_env ''ftp.example'' = None"
    by (simp add: demo_env_def demo_hostname_def)
  have get: "axios_get_probe demo_env 0 (''https://'' @ ''d.test'' @ ''/'') =
       (ProbeResponse 200 ''http://[2001:db8::1]/'', 1)"
    by (simp add: demo_env_def demo_probe_def)
  from isIpHost_dotted_quads_only [of demo_env "''http://[2001:db8::1]/''" "''[2001:db8::1]''"
      0 "''d.test''" 200 "''http://[2001:db8::1]/''" 1]
    isIpHost_dotted_quads_only [of demo_env "''ftp.example''" "''[2001:db8::1]''"
      0 "''d.test''" 200 "''http://[2001:db8::1]/''" 1]
    none get demo_hostname_d
  show ?thesis
    by auto
qed

subsection \<open>One record for every domain\<close>

lemma iteration_pushes:
  "\<exists>r. results (fst (iteration sg dn (st, w))) = results st @ [r] \<and> domain r = dn"
  by (simp add: iteration_def catch_block_def push_def record_of_def Let_def
      split: prod.splits sum.splits)

lemma main_loop_domains:
  "map domain (results (fst (main_loop sg rows c))) = map domain (results (fst c)) @ rows"
proof (induction rows arbitrary: c)
  case Nil
  show ?case by simp
next
  case (Cons dn rows)
  obtain st w where c: "c = (st, w)"
    by (cases c)
  from iteration_pushes [of sg dn st w] Cons.IH [of "iteration sg dn c"] c
  show ?case by auto
qed

text \<open>Claim C1: for every sequence of rows with a non-empty domain, whatever the three
  stage calls return or throw, the list of results at the end of the loop, which is
  the list passed to the parquet writer, has exactly one record for every row, in the
  order of the rows; for \<open>main\<close>, the rows are those of the input whose domain is not
  empty.\<close>

theorem one_record_per_domain:
  "map domain (results (fst (main_loop sg rows (initial_state, w)))) = rows
   \<and> (main e w (Inr recs) = Inr (st, w') \<longrightarrow>
        map domain (results st) = load_rows recs
        \<and> length (results st) = length (load_rows recs))"
proof -
  have "map domain (results (fst (main_loop sg rows (initial_state, w)))) = rows" for sg rows
    and w :: 'a
    using main_loop_domains [of sg rows "(initial_state, w)"]
    by (simp add: initial_state_def)
  moreover have "main e w (Inr recs) = Inr (st, w') \<longrightarrow>
        map domain (results st) = load_rows recs
        \<and> length (results st) = length (load_rows recs)"
  proof
    assume a: "main e w (Inr recs) = Inr (st, w')"
    then have "st = fst (main_loop (stage_calls e) (load_rows recs) (initial_state, w))"
      by (auto simp: main_def)
    then have m: "map domain (results st) = load_rows recs"
      using main_loop_domains [of "stage_calls e" "load_rows recs" "(initial_state, w)"]
      by (simp add: initial_state_def)
    then have "length (results st) = length (load_rows recs)"
      by (metis length_map)
    with m show "map domain (results st) = load_rows recs
        \<and> length (results st) = length (load_rows recs)"
      by simp
  qed
  ultimately show ?thesis
    by blast
qed

subsection \<open>The sample run\<close>

lemma demo_dns_call:
  "dns_call (stage_calls demo_env) w dn =
     (if dn = ''x.test'' then Inl Thrown
      else if dn = ''n.test'' then Inr \<lparr>r_has_dns = False, r_dns_ips = None\<rparr>
      else Inr demo_dns_res, Suc w)"
  by (simp add: stage_calls_def dnsLimit_def dnsLookup_def demo_env_def demo_dns_def
      demo_dns_res_def)

lemma demo_http_a:
  "http_call (stage_calls demo_env) w ''a.test'' = (Inr (ok_result 200 ''https://a.test/''), Suc w)"
  by (simp add: stage_calls_def httpLimit_def resolved_def httpCheck_def urls_def demo_env_def
      demo_probe_def isIpHost_def demo_hostname_def matches_def ip_pattern_def is_digit_def
      ok_result_def)

lemma demo_http_b:
  "http_call (stage_calls demo_env) w ''b.test'' =
     (Inr (ok_result 301 ''http://b.test/home''), Suc (Suc w))"
  by (simp add: stage_calls_def httpLimit_def resolved_def httpCheck_def urls_def demo_env_def
      demo_probe_def isIpHost_def demo_hostname_def matches_def ip_pattern_def is_digit_def
      ok_result_def)

lemma demo_http_c:
  "http_call (stage_calls demo_env) w ''c.test'' = (Inr http_not_ok, Suc w)"
  by (simp add: stage_calls_def httpLimit_def resolved_def httpCheck_def urls_def demo_env_def
      demo_probe_def isIpHost_def demo_hostname_def matches_def ip_pattern_def is_digit_def)

lemma demo_text_call_a:
  "text_call (stage_calls demo_env) w (Some ''https://a.test/'') =
     (Inr \<lparr>r_homepage_text = Some (replicate 250 0x61), r_text_ok = True\<rparr>, Suc w)"
  by (simp add: stage_calls_def textLimit_def resolved_def fetchText_def demo_env_def
      demo_page_def collapse_spaces_plain trim_plain not_space_a TEXT_MIN_CHARS_def
      TEXT_MAX_CHARS_def)

lemma demo_text_call_b:
  "text_call (stage_calls demo_env) w (Some ''http://b.test/home'') = (Inr text_not_ok, Suc w)"
  by (simp add: stage_calls_def textLimit_def resolved_def fetchText_def demo_env_def
      demo_page_def is_space_def trim_def TEXT_MIN_CHARS_def)

lemmas demo_calls =
  demo_dns_call demo_http_a demo_http_b demo_http_c demo_text_call_a demo_text_call_b

lemma demo_load: "load_rows demo_input = [''a.test'', ''n.test'', ''c.test'', ''b.test'']"
  by (simp add: demo_input_def)

lemma ok_result_sel:
  "r_http_ok (ok_result s f)" "r_final_url (ok_result s f) = Some f"
  "r_status_code (ok_result s f) = Some s"
  by (simp_all add: ok_result_def)

lemma not_ok_sel:
  "\<not> r_http_ok http_not_ok" "r_final_url http_not_ok = None" "r_status_code http_not_ok = None"
  "\<not> r_text_ok text_not_ok" "r_homepage_text text_not_ok = None"
  by (simp_all add: http_not_ok_def text_not_ok_def)

lemma demo_iter_a:
  "iteration (stage_calls demo_env) ''a.test'' (st, w) =
     (push (demo_results ! 0)
        (st\<lparr>dnsCount := dnsCount st + 1, httpCount := httpCount st + 1,
            textCount := textCount st + 1\<rparr>), w + 3)"
  by (simp add: iteration_def demo_calls ok_result_sel Let_def demo_results_def
      demo_dns_res_def)

lemma demo_iter_n:
  "iteration (stage_calls demo_env) ''n.test'' (st, w) =
     (push (demo_results ! 1) (st\<lparr>dnsErrors := dnsErrors st + 1\<rparr>), w + 1)"
  by (simp add: iteration_def demo_calls demo_results_def)

lemma demo_iter_c:
  "iteration (stage_calls demo_env) ''c.test'' (st, w) =
     (push (demo_results ! 2)
        (st\<lparr>dnsCount := dnsCount st + 1, httpErrors := httpErrors st + 1\<rparr>), w + 2)"
  by (simp add: iteration_def demo_calls not_ok_sel Let_def demo_results_def demo_dns_res_def)

lemma demo_iter_b:
  "iteration (stage_calls demo_env) ''b.test'' (st, w) =
     (push (demo_results ! 3)
        (st\<lparr>dnsCount := dnsCount st + 1, httpCount := httpCount st + 1,
            textErrors := textErrors st + 1\<rparr>), w + 4)"
  by (simp add: iteration_def demo_calls ok_result_sel not_ok_sel Let_def demo_results_def
      demo_dns_res_def)

lemma demo_iter_x:
  "iteration (stage_calls demo_env) ''x.test'' (st, w) =
     (push (failed_record ''x.test'') (st\<lparr>dnsErrors := dnsErrors st + 1\<rparr>), w + 1)"
  by (simp add: iteration_def demo_calls catch_block_def failed_record_def record_of_def
      http_not_ok_def text_not_ok_def)

lemma demo_run:
  "main_loop (stage_calls demo_env) [''a.test'', ''n.test'', ''c.test'', ''b.test'']
     (initial_state, 0) =
   (\<lparr>results = demo_results, dnsCount = 3, httpCount = 2, textCount = 1,
      dnsErrors = 1, httpErrors = 1, textErrors = 1\<rparr>, 10)"
  by (simp only: main_loop.simps demo_iter_a demo_iter_n demo_iter_c demo_iter_b)
    (simp add: initial_state_def push_def demo_results_def)

theorem one_record_per_domain_witness:
  "main demo_env 0 (Inr demo_input) =
     Inr (\<lparr>results = demo_results, dnsCount = 3, httpCount = 2, textCount = 1,
           dnsErrors = 1, httpErrors = 1, textErrors = 1\<rparr>, 10)
   \<and> load_rows demo_input = [''a.test'', ''n.test'', ''c.test'', ''b.test'']
   \<and> map domain demo_results = [''a.test'', ''n.test'', ''c.test'', ''b.test'']
   \<and> length demo_results = 4"
proof -
  have m: "main demo_env 0 (Inr demo_input) =
     Inr (\<lparr>results = demo_results, dnsCount = 3, httpCount = 2, textCount = 1,
           dnsErrors = 1, httpErrors = 1, textErrors = 1\<rparr>, 10)"
    unfolding main_def demo_load sum.case demo_run ..
  from one_record_per_domain [where e = demo_env and w = 0 and recs = demo_input
      and w' = 10 and sg = "stage_calls demo_env" and rows = "[]"
      and st = "\<lparr>results = demo_results, dnsCount = 3, httpCount = 2, textCount = 1,
           dnsErrors = 1, httpErrors = 1, textErrors = 1\<rparr>"] m demo_load
  show ?thesis
    by simp
qed

subsection \<open>The stage of a record and its flags\<close>

lemma iteration_pushes_agreeing:
  "\<exists>r. results (fst (iteration sg dn (st, w))) = results st @ [r] \<and> stage_agrees r"
  by (simp add: iteration_def catch_block_def push_def record_of_def Let_def stage_agrees_def
      http_not_ok_def text_not_ok_def split: prod.splits sum.splits)

lemma main_loop_agreeing:
  "\<forall>r\<in>set (results (fst c)). stage_agrees r \<Longrightarrow>
     \<forall>r\<in>set (results (fst (main_loop sg rows c))). stage_agrees r"
proof (induction rows arbitrary: c)
  case Nil
  then show ?case by simp
next
  case (Cons dn rows)
  obtain st w where c: "c = (st, w)"
    by (cases c)
  from iteration_pushes_agreeing [of sg dn st w] Cons.prems c
  have "\<forall>r\<in>set (results (fst (iteration sg dn c))). stage_agrees r"
    by auto
  from Cons.IH [OF this] show ?case
    by simp
qed

text \<open>Claim C2: in every record of the results, \<open>stage = "text"\<close> comes with \<open>has_dns\<close>,
  \<open>http_ok\<close> and \<open>text_ok\<close> all true; \<open>stage = "http"\<close> with \<open>has_dns\<close> and \<open>http_ok\<close> true
  and \<open>text_ok\<close> false; \<open>stage = "dns"\<close> with \<open>has_dns\<close> true and \<open>http_ok\<close> false;
  \<open>stage = "fail"\<close> with \<open>has_dns\<close> false; and \<open>stage\<close> is one of the four. This holds
  whatever the stage calls return or throw.\<close>

theorem stage_agrees_with_flags:
  assumes "r \<in> set (results (fst (main_loop sg rows (initial_state, w))))"
  shows "(stage r = ''text'' \<longrightarrow> has_dns r \<and> http_ok r \<and> text_ok r)
     \<and> (stage r = ''http'' \<longrightarrow> has_dns r \<and> http_ok r \<and> \<not> text_ok r)
     \<and> (stage r = ''dns'' \<longrightarrow> has_dns r \<and> \<not> http_ok r)
     \<and> (stage r = ''fail'' \<longrightarrow> \<not> has_dns r)
     \<and> stage r \<in> {''text'', ''http'', ''dns'', ''fail''}"
proof -
  have "\<forall>r\<in>set (results (fst (initial_state, w))). stage_agrees r"
    by (simp add: initial_state_def)
  from main_loop_agreeing [OF this, of sg rows] assms have "stage_agrees r"
    by blast
  then show ?thesis
    unfolding stage_agrees_def .
qed

theorem stage_agrees_with_flags_witness:
  "set (results (fst (main_loop (stage_calls demo_env) [''a.test'', ''n.test'', ''c.test'', ''b.test'']
      (initial_state, 0)))) = set demo_results
   \<and> stage (demo_results ! 0) = ''text'' \<and> has_dns (demo_results ! 0)
   \<and> http_ok (demo_results ! 0) \<and> text_ok (demo_results ! 0)
   \<and> stage (demo_results ! 1) = ''fail'' \<and> \<not> has_dns (demo_results ! 1)
   \<and> stage (demo_results ! 2) = ''dns'' \<and> has_dns (demo_results ! 2)
   \<and> \<not> http_ok (demo_results ! 2)
   \<and> stage (demo_results ! 3) = ''http'' \<and> has_dns (demo_results ! 3)
   \<and> http_ok (demo_results ! 3) \<and> \<not> text_ok (demo_results ! 3)"
proof -
  let ?run = "main_loop (stage_calls demo_env) [''a.test'', ''n.test'', ''c.test'', ''b.test'']
      (initial_state, 0)"
  have s: "set (results (fst ?run)) = set demo_results"
    unfolding demo_run by simp
  have st: "stage (demo_results ! 0) = ''text''" "stage (demo_results ! 1) = ''fail''"
    "stage (demo_results ! 2) = ''dns''" "stage (demo_results ! 3) = ''http''"
    by (simp_all add: demo_results_def record_of_def)
  have len: "length demo_results = 4"
    by (simp add: demo_results_def)
  have "demo_results ! i \<in> set (results (fst ?run))" if "i < 4" for i
    unfolding s using that len by (simp add: nth_mem)
  from stage_agrees_with_flags [OF this [of 0]] stage_agrees_with_flags [OF this [of 1]]
    stage_agrees_with_flags [OF this [of 2]] stage_agrees_with_flags [OF this [of 3]] s st
  show ?thesis
    by simp
qed

subsection \<open>The points of a pass\<close>

lemma pass_at_0: "pass_at sg dn c 0 = (CallDns, c)"
  by (simp add: pass_at_def)

lemma pass_at_Suc: "pass_at sg dn c (Suc k) = step sg dn (pass_at sg dn c k)"
  by (simp add: pass_at_def)

lemma completed_stays: "((step sg dn) ^^ j) (Completed, x) = (Completed, x)"
proof (cases x)
  case (Pair st w)
  show ?thesis
    unfolding Pair by (induction j) simp_all
qed

lemma pass_at_add: "pass_at sg dn c (k + j) = ((step sg dn) ^^ j) (pass_at sg dn c k)"
  by (simp add: pass_at_def funpow_add add.commute)

lemma step_faulted:
  "faulted pt \<Longrightarrow> step sg dn (pt, st, w) = (Completed, catch_block dn st, w)"
  by (induction pt rule: faulted.induct) simp_all

lemma pass_at_6: "pass_at sg dn (st, w) 6 = (Completed, iteration sg dn (st, w))"
  by (simp add: pass_at_def eval_nat_numeral iteration_def Let_def
      split: prod.splits sum.splits)

lemma step_keeps:
  assumes "step sg dn (pt, st, w) = (pt', st', w')" and "pt' \<noteq> Completed"
  shows "results st' = results st \<and> dnsErrors st' = dnsErrors st"
  using assms
  by (induction sg dn "(pt, st, w)" rule: step.induct)
    (auto split: prod.splits if_splits)

lemma pass_keeps:
  "pass_at sg dn (st, w) k = (pt, st', w') \<Longrightarrow> pt \<noteq> Completed \<Longrightarrow>
     results st' = results st \<and> dnsErrors st' = dnsErrors st"
proof (induction k arbitrary: pt st' w')
  case 0
  then show ?case by (simp add: pass_at_0)
next
  case (Suc k)
  obtain p s v where p: "pass_at sg dn (st, w) k = (p, s, v)"
    by (cases "pass_at sg dn (st, w) k")
  with Suc.prems have s: "step sg dn (p, s, v) = (pt, st', w')"
    by (simp add: pass_at_Suc)
  with Suc.prems have "p \<noteq> Completed"
    by auto
  from Suc.IH [OF p this] step_keeps [OF s Suc.prems(2)] show ?case
    by simp
qed

lemma faulted_pass:
  assumes "pass_at sg dn (st, w) k = (pt, s, v)" and "faulted pt"
  shows "iteration sg dn (st, w) = (catch_block dn s, v)
     \<and> results s = results st \<and> dnsErrors s = dnsErrors st"
proof -
  from assms(2) have nc: "pt \<noteq> Completed"
    by auto
  have "k < 6"
  proof (rule ccontr)
    assume "\<not> k < 6"
    then obtain j where "k = 6 + j"
      using le_Suc_ex [of 6 k] by auto
    then have "pass_at sg dn (st, w) k = (Completed, iteration sg dn (st, w))"
      by (simp add: pass_at_add pass_at_6 completed_stays)
    with assms(1) nc show False
      by simp
  qed
  then obtain j where j: "6 = Suc k + j"
    using le_Suc_ex [of "Suc k" 6] by auto
  have "pass_at sg dn (st, w) (Suc k) = (Completed, catch_block dn s, v)"
    using assms by (simp add: pass_at_Suc step_faulted)
  then have "pass_at sg dn (st, w) (Suc k + j) = (Completed, catch_block dn s, v)"
    by (simp only: pass_at_add completed_stays)
  with j have "iteration sg dn (st, w) = (catch_block dn s, v)"
    using pass_at_6 [of sg dn st w] by simp
  with pass_keeps [OF assms(1) nc] show ?thesis
    by simp
qed

lemma catch_block_results:
  "results (catch_block dn s) = results s @ [failed_record dn]"
  "dnsErrors (catch_block dn s) = dnsErrors s + 1"
  by (simp_all add: catch_block_def push_def failed_record_def record_of_def http_not_ok_def
      text_not_ok_def)

text \<open>Claim C3: when one of the three stage calls of a pass throws, the run goes on: the
  pass ends with the record of the \<open>catch\<close> block for that domain (\<open>stage = "fail"\<close>,
  \<open>has_dns = false\<close>, every optional field absent and every flag false) appended to the
  results, \<open>dnsErrors\<close> is one higher than at the start of the pass, and the loop
  continues with the next domain, so that every later domain is recorded as well.\<close>

theorem fault_is_recorded_and_run_goes_on:
  assumes "faulted (fst (pass_at sg dn (st, w) k))"
  shows "\<exists>st' w'. iteration sg dn (st, w) = (st', w')
     \<and> results st' = results st @
         [\<lparr>domain = dn, has_dns = False, dns_ips = None, http_ok = False, final_url = None,
           status_code = None, used_https = False, text_ok = False, homepage_text = None,
           stage = ''fail''\<rparr>]
     \<and> dnsErrors st' = dnsErrors st + 1
     \<and> main_loop sg (dn # rest) (st, w) = main_loop sg rest (st', w')
     \<and> map domain (results (fst (main_loop sg (dn # rest) (st, w)))) =
         map domain (results st) @ dn # rest"
proof -
  obtain pt s v where p: "pass_at sg dn (st, w) k = (pt, s, v)"
    by (cases "pass_at sg dn (st, w) k")
  with assms have "faulted pt"
    by simp
  from faulted_pass [OF p this] have it: "iteration sg dn (st, w) = (catch_block dn s, v)"
    and s: "results s = results st" "dnsErrors s = dnsErrors st"
    by simp_all
  have "map domain (results (fst (main_loop sg (dn # rest) (st, w)))) =
      map domain (results st) @ dn # rest"
    using main_loop_domains [of sg "dn # rest" "(st, w)"] by simp
  with it s show ?thesis
    by (intro exI [of _ "catch_block dn s"] exI [of _ v])
      (simp add: catch_block_results failed_record_def)
qed

lemma demo_faulty_calls:
  "dns_call demo_faulty = dns_call (stage_calls demo_env)"
  "http_call demo_faulty w dn = (Inl Thrown, Suc w)"
  by (simp_all add: demo_faulty_def)

lemma demo_pass_x:
  "pass_at (stage_calls demo_env) ''x.test'' (st, w) 1 = (GotDns (Inl Thrown), st, Suc w)"
  by (simp add: pass_at_def demo_dns_call)

lemma demo_pass_faulty:
  "pass_at demo_faulty ''a.test'' (st, w) 3 =
     (GotHttp demo_dns_res (Inl Thrown), st\<lparr>dnsCount := dnsCount st + 1\<rparr>, Suc (Suc w))"
  by (simp add: pass_at_def eval_nat_numeral demo_faulty_calls demo_dns_call demo_dns_res_def)

theorem fault_is_recorded_and_run_goes_on_witness:
  "faulted (fst (pass_at (stage_calls demo_env) ''x.test'' (initial_state, 0) 1))
   \<and> results (fst (iteration (stage_calls demo_env) ''x.test'' (initial_state, 0))) =
       [failed_record ''x.test'']
   \<and> dnsErrors (fst (iteration (stage_calls demo_env) ''x.test'' (initial_state, 0))) = 1
   \<and> map domain (results (fst (main_loop (stage_calls demo_env) [''x.test'', ''a.test'']
         (initial_state, 0)))) = [''x.test'', ''a.test'']
   \<and> faulted (fst (pass_at demo_faulty ''a.test'' (initial_state, 0) 3))
   \<and> results (fst (iteration demo_faulty ''a.test'' (initial_state, 0))) =
       [failed_record ''a.test'']
   \<and> dnsErrors (fst (iteration demo_faulty ''a.test'' (initial_state, 0))) = 1"
proof -
  have x: "faulted (fst (pass_at (stage_calls demo_env) ''x.test'' (initial_state, 0) 1))"
    unfolding demo_pass_x by simp
  have a: "faulted (fst (pass_at demo_faulty ''a.test'' (initial_state, 0) 3))"
    unfolding demo_pass_faulty by simp
  have i: "results initial_state = []" "dnsErrors initial_state = 0"
    by (simp_all add: initial_state_def)
  from fault_is_recorded_and_run_goes_on [OF x, of "[''a.test'']"]
    fault_is_recorded_and_run_goes_on [OF a, of "[]"] x a
  show ?thesis
    unfolding i failed_record_def by (auto simp del: main_loop.simps)
qed

subsection \<open>The counters\<close>

lemma iteration_balanced:
  "balanced st \<Longrightarrow> balanced (fst (iteration (stage_calls e) dn (st, w)))"
  by (auto simp: balanced_def iteration_def stage_calls_def dnsLimit_def httpLimit_def
      textLimit_def resolved_def dnsLookup_def catch_block_def push_def record_of_def Let_def
      http_not_ok_def text_not_ok_def split: prod.splits sum.splits dns_reply.splits)

lemma main_loop_balanced:
  "balanced (fst c) \<Longrightarrow> balanced (fst (main_loop (stage_calls e) rows c))"
proof (induction rows arbitrary: c)
  case Nil
  then show ?case by simp
next
  case (Cons dn rows)
  obtain st w where c: "c = (st, w)"
    by (cases c)
  with Cons.prems have "balanced (fst (iteration (stage_calls e) dn c))"
    by (simp add: iteration_balanced)
  from Cons.IH [OF this] show ?case
    by simp
qed

lemma demo_run_at_2:
  "run_at (stage_calls demo_env) [] ''a.test'' (initial_state, 0) 2 =
     (CallHttp demo_dns_res, initial_state\<lparr>dnsCount := 1\<rparr>, 1)"
  by (simp add: run_at_def pass_at_def eval_nat_numeral demo_dns_call demo_dns_res_def
      initial_state_def)

text \<open>Claim C7, as stated, fails inside a pass: when the Probe call of the first domain of
  the sample run is made, its Resolve has succeeded and \<open>dnsCount\<close> is already 1, while
  \<open>httpCount + httpErrors\<close> is still 0.\<close>

theorem counters_unbalanced_inside_pass:
  "fst (run_at (stage_calls demo_env) [] ''a.test'' (initial_state, 0) 2) = CallHttp demo_dns_res
   \<and> dnsCount (fst (snd (run_at (stage_calls demo_env) [] ''a.test'' (initial_state, 0) 2))) = 1
   \<and> httpCount (fst (snd (run_at (stage_calls demo_env) [] ''a.test'' (initial_state, 0) 2)))
       + httpErrors (fst (snd (run_at (stage_calls demo_env) [] ''a.test'' (initial_state, 0) 2)))
     \<noteq> dnsCount (fst (snd (run_at (stage_calls demo_env) [] ''a.test'' (initial_state, 0) 2)))"
  unfolding demo_run_at_2 by (simp add: initial_state_def)

text \<open>Claim C7, amended: after each domain has completed its pass, that is at every
  boundary of the loop (where the progress is logged and where the run ends), the
  counters of the script balance: \<open>dnsCount + dnsErrors\<close> is the number of domains
  processed so far, \<open>httpCount + httpErrors\<close> is \<open>dnsCount\<close>, the number of domains whose
  Resolve succeeded, and \<open>textCount + textErrors\<close> is \<open>httpCount\<close>, the number of domains
  whose Probe succeeded.\<close>

theorem counters_balanced_after_each_domain:
  assumes "i \<le> length rows"
    and "st = fst (main_loop (stage_calls e) (take i rows) (initial_state, w))"
  shows "dnsCount st + dnsErrors st = i
     \<and> httpCount st + httpErrors st = dnsCount st
     \<and> textCount st + textErrors st = httpCount st
     \<and> dnsCount st = length (filter has_dns (results st))
     \<and> httpCount st = length (filter http_ok (results st))
     \<and> textCount st = length (filter text_ok (results st))"
proof -
  have "balanced (fst (initial_state, w))"
    by (simp add: balanced_def initial_state_def)
  from main_loop_balanced [OF this, of e "take i rows"] assms(2) have b: "balanced st"
    by simp
  have "map domain (results st) = take i rows"
    using main_loop_domains [of "stage_calls e" "take i rows" "(initial_state, w)"] assms(2)
    by (simp add: initial_state_def)
  then have "length (results st) = length (take i rows)"
    by (metis length_map)
  with assms(1) b show ?thesis
    by (simp add: balanced_def)
qed

theorem counters_balanced_after_each_domain_witness:
  "(4::nat) \<le> length [''a.test'', ''n.test'', ''c.test'', ''b.test'']
   \<and> fst (main_loop (stage_calls demo_env)
        (take 4 [''a.test'', ''n.test'', ''c.test'', ''b.test'']) (initial_state, 0)) =
      \<lparr>results = demo_results, dnsCount = 3, httpCount = 2, textCount = 1,
        dnsErrors = 1, httpErrors = 1, textErrors = 1\<rparr>
   \<and> (3::nat) + 1 = 4 \<and> (2::nat) + 1 = 3 \<and> (1::nat) + 1 = 2
   \<and> length (filter has_dns demo_results) = 3
   \<and> length (filter http_ok demo_results) = 2
   \<and> length (filter text_ok demo_results) = 1"
proof -
  have t: "take 4 [''a.test'', ''n.test'', ''c.test'', ''b.test''] =
      [''a.test'', ''n.test'', ''c.test'', ''b.test'']"
    by simp
  have r: "\<lparr>results = demo_results, dnsCount = 3, httpCount = 2, textCount = 1,
        dnsErrors = 1, httpErrors = 1, textErrors = 1\<rparr> =
      fst (main_loop (stage_calls demo_env)
        (take 4 [''a.test'', ''n.test'', ''c.test'', ''b.test'']) (initial_state, 0))"
    unfolding t demo_run by simp
  have l: "(4::nat) \<le> length [''a.test'', ''n.test'', ''c.test'', ''b.test'']"
    by simp
  from counters_balanced_after_each_domain [OF l r] r l show ?thesis
    by simp
qed

text \<open>The balance depends on \<open>httpCheck\<close> and \<open>fetchText\<close> never rejecting: with a Probe
  that throws, the \<open>catch\<close> block counts a DNS failure for a domain whose DNS success
  has been counted already.\<close>

lemma throwing_probe_unbalanced:
  "\<not> balanced (fst (iteration demo_faulty ''a.test'' (initial_state, 0)))"
  by (simp add: iteration_def demo_faulty_calls demo_dns_call demo_dns_res_def catch_block_def
      push_def balanced_def initial_state_def)

lemma step_counters:
  assumes "step sg dn (p, s, v) = (pt, st', w')"
    and "passed p < 3 \<longrightarrow> counters s = bumped st (passed p)"
  shows "passed pt < 3 \<longrightarrow> counters st' = bumped st (passed pt)"
proof (cases p)
  case CallDns
  with assms show ?thesis by (auto split: prod.splits)
next
  case (GotDns out)
  with assms show ?thesis
    by (cases out) (auto simp: bumped_def counters_def split: if_splits)
next
  case (CallHttp dr)
  with assms show ?thesis by (auto split: prod.splits)
next
  case (GotHttp dr out)
  with assms show ?thesis
    by (cases out) (auto simp: bumped_def counters_def split: if_splits)
next
  case (CallText dr hr)
  with assms show ?thesis by (auto split: prod.splits)
next
  case (GotText dr hr out)
  with assms show ?thesis
    by (cases out) (auto simp: bumped_def counters_def split: if_splits)
next
  case Completed
  with assms show ?thesis by simp
qed

lemma pass_counters:
  "pass_at sg dn (st, w) k = (pt, st', w') \<Longrightarrow> passed pt < 3 \<longrightarrow> counters st' = bumped st (passed pt)"
proof (induction k arbitrary: pt st' w')
  case 0
  then show ?case by (simp add: pass_at_0 bumped_def counters_def)
next
  case (Suc k)
  obtain p s v where p: "pass_at sg dn (st, w) k = (p, s, v)"
    by (cases "pass_at sg dn (st, w) k")
  with Suc.prems have "step sg dn (p, s, v) = (pt, st', w')"
    by (simp add: pass_at_Suc)
  from step_counters [OF this Suc.IH [OF p]] show ?case .
qed

lemma step_calling: "calling pt \<Longrightarrow> fst (snd (step sg dn (pt, st, w))) = st"
  by (induction pt rule: calling.induct) (simp_all split: prod.splits)

lemma demo_run_at_4:
  "run_at (stage_calls demo_env) [''n.test''] ''a.test'' (initial_state, 0) 4 =
     (CallText demo_dns_res (ok_result 200 ''https://a.test/''),
      \<lparr>results = [demo_results ! 1], dnsCount = 1, httpCount = 1, textCount = 0,
        dnsErrors = 1, httpErrors = 0, textErrors = 0\<rparr>, 3)"
  by (simp add: run_at_def demo_iter_n pass_at_def eval_nat_numeral demo_calls ok_result_sel
      demo_dns_res_def initial_state_def push_def)

lemma demo_run_at_0:
  "run_at (stage_calls demo_env) [''n.test''] ''a.test'' (initial_state, 0) 0 =
     (CallDns,
      \<lparr>results = [demo_results ! 1], dnsCount = 0, httpCount = 0, textCount = 0,
        dnsErrors = 1, httpErrors = 0, textErrors = 0\<rparr>, 1)"
  by (simp add: run_at_def demo_iter_n pass_at_def initial_state_def push_def)

text \<open>Claim C8, as stated, fails: in the sample run, when the Extract call of the second
  domain is made the pass is not completed, and \<open>dnsCount\<close> and \<open>httpCount\<close> are already
  one higher than when the pass started.\<close>

theorem counters_changed_inside_pass:
  "fst (run_at (stage_calls demo_env) [''n.test''] ''a.test'' (initial_state, 0) 4) =
     CallText demo_dns_res (ok_result 200 ''https://a.test/'')
   \<and> counters (fst (snd (run_at (stage_calls demo_env) [''n.test''] ''a.test'' (initial_state, 0) 0)))
       = (0, 0, 0, 1, 0, 0)
   \<and> counters (fst (snd (run_at (stage_calls demo_env) [''n.test''] ''a.test'' (initial_state, 0) 4)))
       = (1, 1, 0, 1, 0, 0)
   \<and> counters (fst (snd (run_at (stage_calls demo_env) [''n.test''] ''a.test'' (initial_state, 0) 4)))
       \<noteq> counters (fst (snd (run_at (stage_calls demo_env) [''n.test''] ''a.test'' (initial_state, 0) 0)))"
  unfolding demo_run_at_4 demo_run_at_0 by (simp add: counters_def)

text \<open>Claim C8, amended: a stage call leaves the state of the run, and so every counter,
  unchanged; the counters are changed by \<open>main\<close> between the stage calls, as each result
  arrives. Up to the return of Resolve the counters are those of the start of the pass;
  \<open>dnsCount\<close> is incremented as soon as Resolve has succeeded, before Probe is called, so
  until Probe has returned the counters are those of the start with \<open>dnsCount\<close> one higher;
  \<open>httpCount\<close> is incremented as soon as Probe has succeeded, before Extract is called, so
  until Extract has returned \<open>dnsCount\<close> and \<open>httpCount\<close> are both one higher.\<close>

theorem counters_change_between_stage_calls:
  "(calling p \<longrightarrow> fst (snd (step sg dn (p, s, v))) = s)
   \<and> (pass_at sg dn (st, w) k = (pt, st', w') \<longrightarrow>
        (passed pt = 0 \<longrightarrow> counters st' = counters st)
        \<and> (passed pt = 1 \<longrightarrow>
             counters st' =
               (dnsCount st + 1, httpCount st, textCount st,
                dnsErrors st, httpErrors st, textErrors st))
        \<and> (passed pt = 2 \<longrightarrow>
             counters st' =
               (dnsCount st + 1, httpCount st + 1, textCount st,
                dnsErrors st, httpErrors st, textErrors st)))"
  using step_calling [of p sg dn s v] pass_counters [of sg dn st w k pt st' w']
  by (auto simp: bumped_def counters_def)

lemma demo_pass_a_2:
  "pass_at (stage_calls demo_env) ''a.test'' (initial_state, 0) 2 =
     (CallHttp demo_dns_res, initial_state\<lparr>dnsCount := 1\<rparr>, 1)"
  using demo_run_at_2 by (simp add: run_at_def)

lemma demo_pass_a_5:
  "pass_at (stage_calls demo_env) ''a.test'' (initial_state, 0) 5 =
     (GotText demo_dns_res (ok_result 200 ''https://a.test/'')
        (Inr \<lparr>r_homepage_text = Some (replicate 250 0x61), r_text_ok = True\<rparr>),
      initial_state\<lparr>dnsCount := 1, httpCount := 1\<rparr>, 3)"
  by (simp add: pass_at_def eval_nat_numeral demo_calls ok_result_sel demo_dns_res_def
      initial_state_def)

theorem counters_change_between_stage_calls_witness:
  "calling (CallHttp demo_dns_res)
   \<and> fst (snd (step (stage_calls demo_env) ''a.test''
        (CallHttp demo_dns_res, initial_state\<lparr>dnsCount := 1\<rparr>, 1))) = initial_state\<lparr>dnsCount := 1\<rparr>
   \<and> pass_at (stage_calls demo_env) ''a.test'' (initial_state, 0) 0 = (CallDns, initial_state, 0)
   \<and> passed CallDns = 0
   \<and> pass_at (stage_calls demo_env) ''a.test'' (initial_state, 0) 2 =
       (CallHttp demo_dns_res, initial_state\<lparr>dnsCount := 1\<rparr>, 1)
   \<and> passed (CallHttp demo_dns_res) = 1
   \<and> counters (initial_state\<lparr>dnsCount := 1\<rparr>) = (0 + 1, 0, 0, 0, 0, 0)
   \<and> pass_at (stage_calls demo_env) ''a.test'' (initial_state, 0) 5 =
       (GotText demo_dns_res (ok_result 200 ''https://a.test/'')
          (Inr \<lparr>r_homepage_text = Some (replicate 250 0x61), r_text_ok = True\<rparr>),
        initial_state\<lparr>dnsCount := 1, httpCount := 1\<rparr>, 3)
   \<and> counters (initial_state\<lparr>dnsCount := 1, httpCount := 1\<rparr>) = (0 + 1, 0 + 1, 0, 0, 0, 0)"
proof -
  have c: "counters initial_state = (0, 0, 0, 0, 0, 0)"
    by (simp add: counters_def initial_state_def)
  from counters_change_between_stage_calls [where p = "CallHttp demo_dns_res"
      and sg = "stage_calls demo_env" and dn = "''a.test''" and s = "initial_state\<lparr>dnsCount := 1\<rparr>"
      and v = 1 and st = initial_state and w = 0 and k = 2 and pt = "CallHttp demo_dns_res"
      and st' = "initial_state\<lparr>dnsCount := 1\<rparr>" and w' = 1]
    counters_change_between_stage_calls [where p = "CallDns"
      and sg = "stage_calls demo_env" and dn = "''a.test''" and s = initial_state
      and v = 0 and st = initial_state and w = 0 and k = 5
      and pt = "GotText demo_dns_res (ok_result 200 ''https://a.test/'')
          (Inr \<lparr>r_homepage_text = Some (replicate 250 0x61), r_text_ok = True\<rparr>)"
      and st' = "initial_state\<lparr>dnsCount := 1, httpCount := 1\<rparr>" and w' = 3]
    demo_pass_a_2 demo_pass_a_5 c
  show ?thesis
    by (simp add: pass_at_0 initial_state_def)
qed

end
